theory Spec2Isabelle
  imports Complex_Main "HOL-Library.Sublist"
begin

section \<open>Python values used by apply_plan_changes.py\<close>

text \<open>
  A Python \<open>str\<close> is modelled by its UTF-8 encoding, a \<open>string\<close> of bytes: the script
  only concatenates strings, compares them with the empty string and writes them to files
  opened with \<open>encoding='utf-8'\<close>, and all of that commutes with the encoding.
\<close>

subsection \<open>Decimal text of integers: \<open>str(n)\<close> and \<open>format(n, ',')\<close>\<close>

definition digit_char :: "nat \<Rightarrow> char" where
  "digit_char d = ''0123456789'' ! (d mod 10)"

fun digits :: "nat \<Rightarrow> string" where
  "digits n = (if n < 10 then [digit_char n] else digits (n div 10) @ [digit_char n])"

declare digits.simps [simp del]

definition str_int :: "int \<Rightarrow> string" where
  \<comment> \<open>\<open>str(monthly)\<close> for a Python int\<close>
  "str_int i = (if i < 0 then CHR ''-'' # digits (nat (- i)) else digits (nat i))"

fun commas :: "string \<Rightarrow> string" where
  \<comment> \<open>on the digits from the least significant one: a comma after every third digit
      that has a digit after it\<close>
  "commas (a # b # c # d # ds) = a # b # c # CHR '','' # commas (d # ds)"
| "commas ds = ds"

definition format_grouped :: "int \<Rightarrow> string" where
  \<comment> \<open>\<open>f"{monthly:,}"\<close> for a Python int\<close>
  "format_grouped i =
     (if i < 0 then CHR ''-'' # rev (commas (rev (digits (nat (- i)))))
      else rev (commas (rev (digits (nat i)))))"

subsection \<open>What the interpreter supplies\<close>

text \<open>
  Two builtins are taken as parameters. \<open>hash\<close> of a \<open>str\<close> is keyed by a seed the
  interpreter draws when the process starts (unless \<open>PYTHONHASHSEED\<close> fixes it), so it is
  a function of the process; \<open>py_int_of_str\<close> is \<open>int(s)\<close> for a \<open>str\<close>, with \<open>None\<close>
  where Python raises \<open>ValueError\<close>.
\<close>

record interp =
  py_hash :: "string \<Rightarrow> int"
  py_int_of_str :: "string \<Rightarrow> int option"

subsection \<open>Values returned by \<open>json.loads\<close>\<close>

datatype pyfloat = Finite rat | PosInf | NegInf | NaN

datatype json =
    JNull
  | JBool bool
  | JInt int
  | JFloat pyfloat
  | JString string
  | JArray "json list"
  | JObject "(string \<times> json) list"

text \<open>
  A \<open>JObject\<close> lists the members in the order of the text; \<open>json.loads\<close> keeps the last
  value of a repeated key.
\<close>

datatype exn =
    SystemExit nat
  | JSONDecodeError
  | AttributeError
  | TypeError
  | ValueError
  | OverflowError
  | FileNotFoundError
  | NonStrContent

text \<open>
  \<open>NonStrContent\<close> stands for what BeautifulSoup raises when the string of a tag is set to
  a value that is not a \<open>str\<close>: a \<open>TypeError\<close> or an \<open>AttributeError\<close>, by its version.
\<close>

fun truthy :: "json \<Rightarrow> bool" where
  "truthy JNull = False"
| "truthy (JBool b) = b"
| "truthy (JInt i) = (i \<noteq> 0)"
| "truthy (JFloat x) = (x \<noteq> Finite 0)"
| "truthy (JString s) = (s \<noteq> [])"
| "truthy (JArray xs) = (xs \<noteq> [])"
| "truthy (JObject kvs) = (kvs \<noteq> [])"

definition py_or :: "json \<Rightarrow> json \<Rightarrow> json" where
  \<comment> \<open>\<open>a or b\<close>\<close>
  "py_or a b = (if truthy a then a else b)"

definition lookup :: "(string \<times> json) list \<Rightarrow> string \<Rightarrow> json option" where
  \<comment> \<open>the value of key \<open>k\<close> in the dict: the last member with that key\<close>
  "lookup kvs k = map_of (rev kvs) k"

definition py_get :: "(string \<times> json) list \<Rightarrow> string \<Rightarrow> json \<Rightarrow> json" where
  \<comment> \<open>\<open>d.get(k, default)\<close>; \<open>d.get(k)\<close> is \<open>py_get d k JNull\<close>\<close>
  "py_get kvs k dflt = (case lookup kvs k of None \<Rightarrow> dflt | Some v \<Rightarrow> v)"

fun is_object :: "json \<Rightarrow> bool" where
  "is_object (JObject kvs) = True"
| "is_object v = False"

fun py_int :: "interp \<Rightarrow> json \<Rightarrow> exn + int" where
  \<comment> \<open>\<open>int(v)\<close>\<close>
  "py_int rt (JInt i) = Inr i"
| "py_int rt (JBool b) = Inr (if b then 1 else 0)"
| "py_int rt (JFloat (Finite q)) = Inr (if 0 \<le> q then \<lfloor>q\<rfloor> else \<lceil>q\<rceil>)"
| "py_int rt (JFloat NaN) = Inl ValueError"
| "py_int rt (JFloat PosInf) = Inl OverflowError"
| "py_int rt (JFloat NegInf) = Inl OverflowError"
| "py_int rt (JString s) = (case py_int_of_str rt s of None \<Rightarrow> Inl ValueError | Some i \<Rightarrow> Inr i)"
| "py_int rt JNull = Inl TypeError"
| "py_int rt (JArray xs) = Inl TypeError"
| "py_int rt (JObject kvs) = Inl TypeError"

section \<open>The parsed document\<close>

text \<open>
  A document is held as the tree BeautifulSoup builds from it (\<open>html.parser\<close> adds and
  moves no element), and the file of a target holds such a tree: reading a file the script
  wrote gives back the tree it wrote, up to strings that no operation below looks at.
  A node is addressed by its path, the child indices from the root; the script only
  appends children, so a path keeps naming the same element.
\<close>

type_synonym path = "nat list"

datatype node =
    Text string
  | Tag string "(string \<times> string) list" "node list"

fun is_tag :: "string \<Rightarrow> node \<Rightarrow> bool" where
  "is_tag nm (Text s) = False"
| "is_tag nm (Tag n a cs) = (n = nm)"

fun has_attr :: "node \<Rightarrow> string \<Rightarrow> bool" where
  "has_attr (Text s) k = False"
| "has_attr (Tag n a cs) k = (k \<in> set (map fst a))"

fun subtree :: "node \<Rightarrow> path \<Rightarrow> node option" where
  "subtree t [] = Some t"
| "subtree (Text s) (i # p) = None"
| "subtree (Tag n a cs) (i # p) = (if i < length cs then subtree (cs ! i) p else None)"

fun find_tag :: "string \<Rightarrow> node \<Rightarrow> path option"
  and find_in :: "string \<Rightarrow> nat \<Rightarrow> node list \<Rightarrow> path option" where
  \<comment> \<open>\<open>t.find(nm)\<close>: the first descendant tag named \<open>nm\<close>, in document order\<close>
  "find_tag nm (Text s) = None"
| "find_tag nm (Tag n a cs) = find_in nm 0 cs"
| "find_in nm i [] = None"
| "find_in nm i (c # cs) =
     (if is_tag nm c then Some [i]
      else (case find_tag nm c of
              Some p \<Rightarrow> Some (i # p)
            | None \<Rightarrow> find_in nm (Suc i) cs))"

fun find_all :: "string \<Rightarrow> node \<Rightarrow> path list"
  and find_all_in :: "string \<Rightarrow> nat \<Rightarrow> node list \<Rightarrow> path list" where
  \<comment> \<open>\<open>t.find_all(nm)\<close>: every descendant tag named \<open>nm\<close>, in document order\<close>
  "find_all nm (Text s) = []"
| "find_all nm (Tag n a cs) = find_all_in nm 0 cs"
| "find_all_in nm i [] = []"
| "find_all_in nm i (c # cs) =
     (if is_tag nm c then [[i]] else []) @ map ((#) i) (find_all nm c)
       @ find_all_in nm (Suc i) cs"

fun append_at :: "path \<Rightarrow> node \<Rightarrow> node \<Rightarrow> node" where
  \<comment> \<open>\<open>e.append(x)\<close> for the element \<open>e\<close> at the path\<close>
  "append_at [] x (Tag n a cs) = Tag n a (cs @ [x])"
| "append_at [] x (Text s) = Text s"
| "append_at (i # p) x (Tag n a cs) =
     (if i < length cs then Tag n a (cs[i := append_at p x (cs ! i)]) else Tag n a cs)"
| "append_at (i # p) x (Text s) = Text s"

section \<open>The script\<close>

subsection \<open>\<open>make_header_th\<close>\<close>

definition currency_glyph :: string where
  \<comment> \<open>the bytes between the quote and the brace of line 52 of the source:
      U+00E2, U+201A, U+00B9\<close>
  "currency_glyph = [CHR 0xC3, CHR 0xA2, CHR 0xE2, CHR 0x80, CHR 0x9A, CHR 0xC2, CHR 0xB9]"

definition rupee_sign :: string where
  \<comment> \<open>U+20B9, the glyph of the specification\<close>
  "rupee_sign = [CHR 0xE2, CHR 0x82, CHR 0xB9]"

definition price_text :: "int \<Rightarrow> string" where
  "price_text monthly = currency_glyph @ format_grouped monthly"

definition id_stamp :: "interp \<Rightarrow> string \<Rightarrow> int \<Rightarrow> string" where
  "id_stamp rt name monthly =
     ''price'' @ str_int (\<bar>py_hash rt (name @ str_int monthly)\<bar> mod 10 ^ 9)"

definition header_th :: "interp \<Rightarrow> string \<Rightarrow> int \<Rightarrow> node" where
  "header_th rt name monthly =
     Tag ''th'' [(''class'', ''p-6 md:p-8 w-1/4 align-bottom'')]
       [Tag ''h3'' [(''class'', ''text-lg font-bold'')] [Text name],
        Tag ''div'' [(''class'', ''flex items-baseline gap-1 mb-4'')]
          [Tag ''span''
             [(''id'', id_stamp rt name monthly),
              (''class'', ''text-3xl font-black''),
              (''data-monthly'', str_int monthly)]
             [Text (price_text monthly)],
           Tag ''span'' [(''class'', ''text-sm text-[#4c739a]'')] [Text ''/mo'']],
        Tag ''button'' [(''class'', ''w-full py-2.5 rounded-lg border text-sm'')]
          [Text ''Choose Plan'']]"

definition make_header_th :: "interp \<Rightarrow> json \<Rightarrow> int \<Rightarrow> exn + node" where
  \<comment> \<open>a name that is not a \<open>str\<close> is refused by \<open>h3.string = name\<close> on line 44 (and line 47
      could not concatenate it with \<open>str(monthly)\<close> either)\<close>
  "make_header_th rt name monthly =
     (case name of JString s \<Rightarrow> Inr (header_th rt s monthly) | _ \<Rightarrow> Inl NonStrContent)"

subsection \<open>\<open>append_plan_to_file\<close>\<close>

definition filler_td :: node where
  "filler_td = Tag ''td'' [(''class'', ''px-6 py-3'')] [Text '''']"

definition placeholder_td :: node where
  "placeholder_td = Tag ''td'' [(''class'', ''px-6 py-4 text-center'')] [Text ''-'']"

definition first_td_colspan :: "node \<Rightarrow> bool" where
  \<comment> \<open>\<open>first_td and first_td.has_attr('colspan')\<close>, for \<open>first_td = tr.find('td')\<close>\<close>
  "first_td_colspan tr =
     (case find_tag ''td'' tr of
        None \<Rightarrow> False
      | Some p \<Rightarrow> (case subtree tr p of None \<Rightarrow> False | Some td \<Rightarrow> has_attr td ''colspan''))"

definition body_cell :: "node \<Rightarrow> node" where
  "body_cell tr = (if first_td_colspan tr then filler_td else placeholder_td)"

definition append_row_cell :: "path \<Rightarrow> node \<Rightarrow> node" where
  \<comment> \<open>one round of the loop over \<open>tbody.find_all('tr')\<close>, for the row at path \<open>r\<close>\<close>
  "append_row_cell r soup =
     (case subtree soup r of None \<Rightarrow> soup | Some tr \<Rightarrow> append_at r (body_cell tr) soup)"

definition head_row :: "node \<Rightarrow> path option" where
  \<comment> \<open>\<open>soup.find('thead').find('tr')\<close>\<close>
  "head_row soup =
     (case find_tag ''thead'' soup of
        None \<Rightarrow> None
      | Some p1 \<Rightarrow>
          (case subtree soup p1 of
             None \<Rightarrow> None
           | Some thead_tr \<Rightarrow> map_option ((@) p1) (find_tag ''tr'' thead_tr)))"

definition body_rows :: "node \<Rightarrow> path list" where
  \<comment> \<open>\<open>soup.find('tbody').find_all('tr')\<close>, no row when there is no \<open>tbody\<close>\<close>
  "body_rows soup =
     (case find_tag ''tbody'' soup of
        None \<Rightarrow> []
      | Some pb \<Rightarrow>
          (case subtree soup pb of
             None \<Rightarrow> []
           | Some tbody \<Rightarrow> map ((@) pb) (find_all ''tr'' tbody)))"

datatype patched =
    NoThead
  | NoHeaderRow
  | Written node bool

text \<open>
  What the function does to the parsed document: it returns early, before anything is
  written, when no \<open>thead\<close> or no row in it is found; otherwise it writes the document,
  and the flag tells whether a \<open>tbody\<close> was found.
\<close>

definition append_plan :: "interp \<Rightarrow> json \<Rightarrow> int \<Rightarrow> node \<Rightarrow> exn + patched" where
  "append_plan rt plan_name monthly soup =
     (case find_tag ''thead'' soup of
        None \<Rightarrow> Inr NoThead
      | Some p1 \<Rightarrow>
          (case subtree soup p1 of
             None \<Rightarrow> Inr NoThead
           | Some thead_tr \<Rightarrow>
               (case find_tag ''tr'' thead_tr of
                  None \<Rightarrow> Inr NoHeaderRow
                | Some p2 \<Rightarrow>
                    (case make_header_th rt plan_name monthly of
                       Inl e \<Rightarrow> Inl e
                     | Inr new_th \<Rightarrow>
                         (let soup1 = append_at (p1 @ p2) new_th soup in
                          case find_tag ''tbody'' soup1 of
                            None \<Rightarrow> Inr (Written soup1 False)
                          | Some pb \<Rightarrow>
                              Inr (Written (fold append_row_cell (body_rows soup1) soup1)
                                     True))))))"

text \<open>
  The world of a run: for each of the three target files its parsed document, or \<open>None\<close>
  when the file does not exist, and the lines printed so far, one \<open>event\<close> per \<open>print\<close> of
  the source. A function that can raise returns the exception, if any, beside the world it
  leaves behind.
\<close>

datatype target = Pricingai | Pricinghuman | Pricinghybrid

definition TARGETS :: "target list" where
  "TARGETS = [Pricingai, Pricinghuman, Pricinghybrid]"

datatype event =
    ErrNotFound
  | NoPlans
  | Applying target json int
  | WarnNoThead target
  | WarnNoHeaderRow target
  | WarnNoTbody target
  | Updated target
  | TargetMissing target
  | Done

record world =
  files :: "target \<Rightarrow> node option"
  out :: "event list"

definition say :: "event \<Rightarrow> world \<Rightarrow> world" where
  "say e w = w\<lparr>out := out w @ [e]\<rparr>"

definition write_text :: "target \<Rightarrow> node \<Rightarrow> world \<Rightarrow> world" where
  "write_text t soup w = w\<lparr>files := (files w)(t \<mapsto> soup)\<rparr>"

definition append_plan_to_file ::
  "interp \<Rightarrow> target \<Rightarrow> json \<Rightarrow> int \<Rightarrow> world \<Rightarrow> exn option \<times> world" where
  "append_plan_to_file rt t plan_name monthly w =
     (let w1 = say (Applying t plan_name monthly) w in
      case files w1 t of
        None \<Rightarrow> (Some FileNotFoundError, w1)
      | Some soup \<Rightarrow>
          (case append_plan rt plan_name monthly soup of
             Inl e \<Rightarrow> (Some e, w1)
           | Inr NoThead \<Rightarrow> (None, say (WarnNoThead t) w1)
           | Inr NoHeaderRow \<Rightarrow> (None, say (WarnNoHeaderRow t) w1)
           | Inr (Written soup' has_body) \<Rightarrow>
               (None,
                say (Updated t)
                  (write_text t soup'
                     (if has_body then w1 else say (WarnNoTbody t) w1)))))"

subsection \<open>\<open>load_changes\<close> and \<open>main\<close>\<close>

text \<open>
  The change-set file named on the command line (or the default one): it does not exist, or
  \<open>json.loads\<close> rejects its text, or \<open>json.loads\<close> returns a value.
\<close>

datatype plan_file = Missing | Malformed | Json json

definition load_changes :: "plan_file \<Rightarrow> world \<Rightarrow> (exn + json) \<times> world" where
  "load_changes pf w =
     (case pf of
        Missing \<Rightarrow> (Inl (SystemExit 1), say ErrNotFound w)
      | Malformed \<Rightarrow> (Inl JSONDecodeError, w)
      | Json (JObject kvs) \<Rightarrow> (Inr (py_get kvs ''plans'' (JArray [])), w)
      | Json _ \<Rightarrow> (Inl AttributeError, w))"

definition plan_name :: "json \<Rightarrow> exn + json" where
  \<comment> \<open>\<open>plan.get('name') or 'New Plan'\<close>\<close>
  "plan_name plan =
     (case plan of
        JObject kvs \<Rightarrow> Inr (py_or (py_get kvs ''name'' JNull) (JString ''New Plan''))
      | _ \<Rightarrow> Inl AttributeError)"

definition plan_monthly :: "interp \<Rightarrow> json \<Rightarrow> exn + int" where
  \<comment> \<open>\<open>int(plan.get('monthly') or plan.get('monthly_price') or 0)\<close>\<close>
  "plan_monthly rt plan =
     (case plan of
        JObject kvs \<Rightarrow>
          py_int rt
            (py_or (py_or (py_get kvs ''monthly'' JNull) (py_get kvs ''monthly_price'' JNull))
               (JInt 0))
      | _ \<Rightarrow> Inl AttributeError)"

fun apply_to_targets ::
  "interp \<Rightarrow> json \<Rightarrow> int \<Rightarrow> target list \<Rightarrow> world \<Rightarrow> exn option \<times> world" where
  "apply_to_targets rt name monthly [] w = (None, w)"
| "apply_to_targets rt name monthly (t # ts) w =
     (case files w t of
        Some soup \<Rightarrow>
          (case append_plan_to_file rt t name monthly w of
             (Some e, w') \<Rightarrow> (Some e, w')
           | (None, w') \<Rightarrow> apply_to_targets rt name monthly ts w')
      | None \<Rightarrow> apply_to_targets rt name monthly ts (say (TargetMissing t) w))"

fun apply_plans :: "interp \<Rightarrow> json list \<Rightarrow> world \<Rightarrow> exn option \<times> world" where
  "apply_plans rt [] w = (None, w)"
| "apply_plans rt (plan # plans) w =
     (case plan_name plan of
        Inl e \<Rightarrow> (Some e, w)
      | Inr name \<Rightarrow>
          (case plan_monthly rt plan of
             Inl e \<Rightarrow> (Some e, w)
           | Inr monthly \<Rightarrow>
               (case apply_to_targets rt name monthly TARGETS w of
                  (Some e, w') \<Rightarrow> (Some e, w')
                | (None, w') \<Rightarrow> apply_plans rt plans w')))"

definition main :: "interp \<Rightarrow> plan_file \<Rightarrow> world \<Rightarrow> exn option \<times> world" where
  "main rt pf w =
     (case load_changes pf w of
        (Inl e, w1) \<Rightarrow> (Some e, w1)
      | (Inr plans, w1) \<Rightarrow>
          if \<not> truthy plans then (None, say NoPlans w1)
          else
            (case plans of
               JArray ps \<Rightarrow>
                 (case apply_plans rt ps w1 of
                    (Some e, w2) \<Rightarrow> (Some e, w2)
                  | (None, w2) \<Rightarrow> (None, say Done w2))
             | JString s \<Rightarrow> (Some AttributeError, w1)
             | JObject kvs \<Rightarrow> (Some AttributeError, w1)
             | _ \<Rightarrow> (Some TypeError, w1)))"

definition exit_status :: "exn option \<Rightarrow> nat" where
  \<comment> \<open>the status of the process: 0 when \<open>main\<close> returns, the argument of \<open>sys.exit\<close>,
      1 for an exception nobody catches\<close>
  "exit_status r = (case r of None \<Rightarrow> 0 | Some (SystemExit n) \<Rightarrow> n | Some _ \<Rightarrow> 1)"

section \<open>Notions used to state the properties\<close>

subsection \<open>Rows, cells and what a call appended\<close>

definition tag_path :: "node \<Rightarrow> path \<Rightarrow> bool" where
  \<comment> \<open>the path leads to an element of the tree\<close>
  "tag_path t p = (case subtree t p of Some (Tag n a cs) \<Rightarrow> True | _ \<Rightarrow> False)"

definition kids_at :: "node \<Rightarrow> path \<Rightarrow> node list" where
  \<comment> \<open>the children of the element at the path\<close>
  "kids_at t q = (case subtree t q of Some (Tag n a cs) \<Rightarrow> cs | _ \<Rightarrow> [])"

definition is_cell :: "node \<Rightarrow> bool" where
  \<comment> \<open>a table cell\<close>
  "is_cell x = (is_tag ''td'' x \<or> is_tag ''th'' x)"

definition cell_count :: "node \<Rightarrow> path \<Rightarrow> nat" where
  \<comment> \<open>the number of cells of the row at the path\<close>
  "cell_count t q = length (filter is_cell (kids_at t q))"

definition new_kids :: "node \<Rightarrow> node \<Rightarrow> path \<Rightarrow> node list" where
  \<comment> \<open>the children the element at the path has in \<open>d'\<close> after those it has in \<open>d\<close>\<close>
  "new_kids d d' q = drop (length (kids_at d q)) (kids_at d' q)"

fun get_text :: "node \<Rightarrow> string" where
  \<comment> \<open>the text inside a node\<close>
  "get_text (Text s) = s"
| "get_text (Tag n a cs) = concat (map get_text cs)"

fun first_cell :: "node \<Rightarrow> node option" where
  \<comment> \<open>the first cell among the children of a row\<close>
  "first_cell (Text s) = None"
| "first_cell (Tag n a cs) = List.find is_cell cs"

definition first_cell_is_th :: "node \<Rightarrow> bool" where
  "first_cell_is_th tr = (case first_cell tr of Some c \<Rightarrow> is_tag ''th'' c | None \<Rightarrow> False)"

definition first_cell_colspan :: "node \<Rightarrow> bool" where
  \<comment> \<open>the first cell of the row carries \<open>colspan\<close>\<close>
  "first_cell_colspan tr = (case first_cell tr of Some c \<Rightarrow> has_attr c ''colspan'' | None \<Rightarrow> False)"

fun leading_td :: "node list \<Rightarrow> node option" where
  \<comment> \<open>the first element among the children, when it is a \<open>td\<close>\<close>
  "leading_td [] = None"
| "leading_td (Text s # cs) = leading_td cs"
| "leading_td (Tag n a ks # cs) = (if n = ''td'' then Some (Tag n a ks) else None)"

fun starts_with_td :: "node \<Rightarrow> node option" where
  \<comment> \<open>the first cell of a row that starts with a \<open>td\<close>\<close>
  "starts_with_td (Text s) = None"
| "starts_with_td (Tag n a cs) = leading_td cs"

definition columns_agree :: "node \<Rightarrow> path \<Rightarrow> bool" where
  \<comment> \<open>every row of the document other than the head row \<open>ph\<close> has as many cells as the
      head row\<close>
  "columns_agree d ph =
     (\<forall>r\<in>set (find_all ''tr'' d). r \<noteq> ph \<longrightarrow> cell_count d r = cell_count d ph)"

definition doc_after :: "interp \<Rightarrow> json \<Rightarrow> int \<Rightarrow> node \<Rightarrow> node" where
  \<comment> \<open>the document of the file after the call: the one written, or the old one when the
      call returned early or raised\<close>
  "doc_after rt name monthly d =
     (case append_plan rt name monthly d of Inr (Written d' b) \<Rightarrow> d' | _ \<Rightarrow> d)"

definition plan_ok :: "interp \<Rightarrow> json \<Rightarrow> bool" where
  \<comment> \<open>a plan record for which lines 115 and 116 raise nothing and give a \<open>str\<close> name\<close>
  "plan_ok rt plan =
     (case plan_name plan of
        Inr (JString s) \<Rightarrow> (case plan_monthly rt plan of Inr m \<Rightarrow> True | Inl e \<Rightarrow> False)
      | _ \<Rightarrow> False)"

text \<open>Two processes whose string hashes differ, and a third that hashes as the first.\<close>

definition process_a :: interp where
  "process_a = \<lparr>py_hash = (\<lambda>s. int (length s)), py_int_of_str = (\<lambda>s. None)\<rparr>"

definition process_b :: interp where
  "process_b = \<lparr>py_hash = (\<lambda>s. int (length s) + 1), py_int_of_str = (\<lambda>s. None)\<rparr>"

definition process_c :: interp where
  "process_c = \<lparr>py_hash = (\<lambda>s. int (length s)), py_int_of_str = (\<lambda>s. Some 0)\<rparr>"

subsection \<open>A tree with children appended\<close>

text \<open>
  Every document the script can reach from a document \<open>d\<close> is \<open>d\<close> with some new last
  children: \<open>graft f d\<close> appends the nodes \<open>f q\<close> to the element at each path \<open>q\<close> of \<open>d\<close>.
\<close>

fun graft :: "(path \<Rightarrow> node list) \<Rightarrow> node \<Rightarrow> node"
  and graft_list :: "(path \<Rightarrow> node list) \<Rightarrow> nat \<Rightarrow> node list \<Rightarrow> node list" where
  "graft f (Text s) = Text s"
| "graft f (Tag n a cs) = Tag n a (graft_list f 0 cs @ f [])"
| "graft_list f i [] = []"
| "graft_list f i (c # cs) = graft (\<lambda>q. f (i # q)) c # graft_list f (Suc i) cs"

definition no_tag :: "string \<Rightarrow> node \<Rightarrow> bool" where
  \<comment> \<open>no element named \<open>nm\<close> in the node, the node included\<close>
  "no_tag nm x = (\<not> is_tag nm x \<and> find_all nm x = [])"

fun pre_ord :: "path list \<Rightarrow> bool" where
  \<comment> \<open>no path of the list is followed by one of its prefixes: an element comes before
      its descendants\<close>
  "pre_ord [] = True"
| "pre_ord (x # xs) = ((\<forall>y\<in>set xs. \<not> prefix y x) \<and> pre_ord xs)"

definition row_cells :: "node \<Rightarrow> path list \<Rightarrow> path \<Rightarrow> node list" where
  \<comment> \<open>the cell the loop appends to the row at \<open>q\<close>, chosen on the document \<open>d\<close>\<close>
  "row_cells d rs q =
     (if q \<in> set rs then (case subtree d q of Some tr \<Rightarrow> [body_cell tr] | None \<Rightarrow> []) else [])"

definition added_cells :: "node \<Rightarrow> node \<Rightarrow> path \<Rightarrow> node list" where
  \<comment> \<open>all that one call appends to the element at \<open>q\<close>, for the header cell \<open>th\<close>\<close>
  "added_cells th d q =
     (if head_row d = Some q then [th] else []) @ row_cells d (body_rows d) q"

definition patched_doc :: "node \<Rightarrow> node \<Rightarrow> node" where
  "patched_doc th d = graft (added_cells th d) d"

subsection \<open>Sample documents and change-sets\<close>

text \<open>
  The scenario of the specification: a head row of three cells, a separator row and a
  normal row.
\<close>

definition sample_doc :: node where
  "sample_doc =
     Tag ''[document]'' []
       [Tag ''table'' []
          [Tag ''thead'' []
             [Tag ''tr'' []
                [Tag ''th'' [] [Text ''Feature''], Tag ''th'' [] [Text ''Basic''],
                 Tag ''th'' [] [Text ''Pro'']]],
           Tag ''tbody'' []
             [Tag ''tr'' [] [Tag ''td'' [(''colspan'', ''3'')] [Text ''Support'']],
              Tag ''tr'' []
                [Tag ''td'' [] [Text ''Chat''], Tag ''td'' [] [Text ''yes''],
                 Tag ''td'' [] [Text ''yes'']]]]]"

definition uniform_doc :: node where
  "uniform_doc =
     Tag ''[document]'' []
       [Tag ''table'' []
          [Tag ''thead'' []
             [Tag ''tr'' [] [Tag ''th'' [] [Text ''Feature''], Tag ''th'' [] [Text ''Basic'']]],
           Tag ''tbody'' []
             [Tag ''tr'' [] [Tag ''td'' [] [Text ''Chat''], Tag ''td'' [] [Text ''yes'']],
              Tag ''tr'' [] [Tag ''td'' [] [Text ''Mail''], Tag ''td'' [] [Text ''no'']]]]]"

definition doc_without_tbody :: node where
  "doc_without_tbody =
     Tag ''[document]'' []
       [Tag ''table'' []
          [Tag ''thead'' []
             [Tag ''tr'' [] [Tag ''th'' [] [Text ''Feature''], Tag ''th'' [] [Text ''Basic'']]],
           Tag ''tr'' [] [Tag ''td'' [] [Text ''Chat''], Tag ''td'' [] [Text ''yes'']]]]"

definition th_first_row :: node where
  "th_first_row =
     Tag ''tr'' []
       [Tag ''th'' [] [Text ''Support''],
        Tag ''td'' [(''colspan'', ''2'')] [Text ''Included in every plan'']]"

definition th_first_doc :: node where
  "th_first_doc =
     Tag ''[document]'' []
       [Tag ''table'' []
          [Tag ''thead'' []
             [Tag ''tr'' []
                [Tag ''th'' [] [Text ''Feature''], Tag ''th'' [] [Text ''Basic''],
                 Tag ''th'' [] [Text ''Pro'']]],
           Tag ''tbody'' [] [th_first_row]]]"

definition th_separator_row :: node where
  "th_separator_row = Tag ''tr'' [] [Tag ''th'' [(''colspan'', ''3'')] [Text ''Support'']]"

definition th_separator_doc :: node where
  "th_separator_doc =
     Tag ''[document]'' []
       [Tag ''table'' []
          [Tag ''thead'' []
             [Tag ''tr'' []
                [Tag ''th'' [] [Text ''Feature''], Tag ''th'' [] [Text ''Basic''],
                 Tag ''th'' [] [Text ''Pro'']]],
           Tag ''tbody'' []
             [th_separator_row,
              Tag ''tr'' []
                [Tag ''td'' [] [Text ''Chat''], Tag ''td'' [] [Text ''yes''],
                 Tag ''td'' [] [Text ''yes'']]]]]"

definition nested_head_doc :: node where
  "nested_head_doc =
     Tag ''[document]'' []
       [Tag ''table'' []
          [Tag ''tbody'' []
             [Tag ''tr'' []
                [Tag ''td'' []
                   [Tag ''table'' []
                      [Tag ''thead'' [] [Tag ''tr'' [] [Tag ''th'' [] [Text ''Plan'']]]]]]]]]"

definition world_without_tbody :: world where
  "world_without_tbody = \<lparr>files = (\<lambda>t. Some doc_without_tbody), out = []\<rparr>"

definition sample_world :: world where
  "sample_world =
     \<lparr>files = (\<lambda>t. if t = Pricinghybrid then None else Some sample_doc), out = []\<rparr>"

definition sample_changes :: plan_file where
  "sample_changes =
     Json (JObject
       [(''plans'',
         JArray
           [JObject [(''name'', JString ''New Plan''), (''monthly'', JInt 1999)],
            JObject [(''name'', JString ''VIP''), (''monthly'', JInt 15999)]])])"

section \<open>Properties of the change-set loader and of the header cell\<close>

text \<open>
  C3, evaluated on the source: for \<open>monthly = 1999\<close> the price text is the seven bytes of
  line 52 (the characters U+00E2, U+201A, U+00B9) followed by \<open>1,999\<close>. The digits are
  grouped by thousands, but the prefix is not the rupee sign U+20B9.
\<close>

theorem price_text_1999:
  "price_text 1999 = currency_glyph @ ''1,999'' \<and> price_text 1999 \<noteq> rupee_sign @ ''1,999''"
  by (simp add: price_text_def format_grouped_def digits.simps digit_char_def
      currency_glyph_def rupee_sign_def)

text \<open>
  C7, as stated, fails: the identifier also depends on the string hash of the process.
  Two processes with different hashes give different identifiers for the same name and
  the same monthly price.
\<close>

theorem id_stamp_differs: "id_stamp process_a ''VIP'' 15999 \<noteq> id_stamp process_b ''VIP'' 15999"
  by (simp add: id_stamp_def process_a_def process_b_def str_int_def digits.simps digit_char_def)

text \<open>
  C7, amended: for one string hash (one process, or a fixed hash seed) the identifier is a
  function of the name and the monthly price, and it is \<open>price\<close> followed by the decimal
  text of a number from 0 to \<open>10\<^sup>9 - 1\<close>.
\<close>

theorem id_stamp_fixed_hash:
  "py_hash rt = py_hash rt' \<Longrightarrow>
     id_stamp rt name monthly = id_stamp rt' name monthly \<and>
     (\<exists>k. 0 \<le> k \<and> k < 10 ^ 9 \<and> id_stamp rt name monthly = ''price'' @ str_int k)"
proof -
  assume h: "py_hash rt = py_hash rt'"
  let ?k = "\<bar>py_hash rt (name @ str_int monthly)\<bar> mod 10 ^ 9"
  have "0 \<le> ?k \<and> ?k < 10 ^ 9" by simp
  moreover have "id_stamp rt name monthly = ''price'' @ str_int ?k" by (simp add: id_stamp_def)
  moreover have "id_stamp rt name monthly = id_stamp rt' name monthly"
    using h by (simp add: id_stamp_def)
  ultimately show ?thesis by blast
qed

theorem id_stamp_fixed_hash_witness:
  "py_hash process_a = py_hash process_c \<and>
   id_stamp process_a ''VIP'' 15999 = id_stamp process_c ''VIP'' 15999 \<and>
   id_stamp process_a ''VIP'' 15999 = ''price8''"
proof -
  have h: "py_hash process_a = py_hash process_c" by (simp add: process_a_def process_c_def)
  have "id_stamp process_a ''VIP'' 15999 = ''price8''"
    by (simp add: id_stamp_def process_a_def str_int_def digits.simps digit_char_def)
  with h id_stamp_fixed_hash [OF h, of "''VIP''" 15999] show ?thesis by simp
qed

text \<open>
  C8, as stated, fails: a record whose \<open>name\<close> key is present with the empty string gets
  the default name.
\<close>

theorem plan_name_empty_string:
  "lookup [(''name'', JString '''')] ''name'' = Some (JString '''') \<and>
   plan_name (JObject [(''name'', JString '''')]) = Inr (JString ''New Plan'')"
  by (simp add: plan_name_def py_get_def py_or_def lookup_def)

text \<open>
  C8, amended: the name is \<open>New Plan\<close> when the key is absent or its string is empty, and
  the string of the record otherwise; the monthly price is the nonzero integer under
  \<open>monthly\<close>, else (that key absent or 0) the integer under \<open>monthly_price\<close>, else 0.
\<close>

theorem plan_fields_used:
  "(lookup kvs ''name'' = None \<longrightarrow> plan_name (JObject kvs) = Inr (JString ''New Plan'')) \<and>
   (lookup kvs ''name'' = Some (JString s) \<longrightarrow>
      plan_name (JObject kvs) = Inr (JString (if s = [] then ''New Plan'' else s))) \<and>
   (lookup kvs ''monthly'' = Some (JInt i) \<and> i \<noteq> 0 \<longrightarrow>
      plan_monthly rt (JObject kvs) = Inr i) \<and>
   ((lookup kvs ''monthly'' = None \<or> lookup kvs ''monthly'' = Some (JInt 0)) \<and>
      lookup kvs ''monthly_price'' = Some (JInt j) \<longrightarrow>
      plan_monthly rt (JObject kvs) = Inr j) \<and>
   ((lookup kvs ''monthly'' = None \<or> lookup kvs ''monthly'' = Some (JInt 0)) \<and>
      lookup kvs ''monthly_price'' = None \<longrightarrow>
      plan_monthly rt (JObject kvs) = Inr 0)"
  by (auto simp: plan_name_def plan_monthly_def py_get_def py_or_def)

theorem plan_fields_used_witness:
  "plan_name (JObject [(''monthly'', JInt 1999)]) = Inr (JString ''New Plan'') \<and>
   plan_name (JObject [(''name'', JString ''VIP''), (''monthly'', JInt 15999)]) = Inr (JString ''VIP'') \<and>
   plan_name (JObject [(''name'', JString '''')]) = Inr (JString ''New Plan'') \<and>
   plan_monthly process_a (JObject [(''name'', JString ''VIP''), (''monthly'', JInt 15999)]) = Inr 15999 \<and>
   plan_monthly process_a (JObject [(''monthly'', JInt 0), (''monthly_price'', JInt 500)]) = Inr 500 \<and>
   plan_monthly process_a (JObject [(''name'', JString ''VIP''), (''monthly_price'', JInt 500)]) = Inr 500 \<and>
   plan_monthly process_a (JObject [(''name'', JString ''VIP'')]) = Inr 0"
  using plan_fields_used [of "[(''monthly'', JInt 1999)]" "''VIP''" 1999 process_a 0]
    plan_fields_used [of "[(''name'', JString ''VIP''), (''monthly'', JInt 15999)]" "''VIP''" 15999 process_a 0]
    plan_fields_used [of "[(''name'', JString '''')]" "''''" 1 process_a 0]
    plan_fields_used [of "[(''monthly'', JInt 0), (''monthly_price'', JInt 500)]" "''''" 1 process_a 500]
    plan_fields_used [of "[(''name'', JString ''VIP''), (''monthly_price'', JInt 500)]" "''VIP''" 1 process_a 500]
    plan_fields_used [of "[(''name'', JString ''VIP'')]" "''VIP''" 1 process_a 500]
  by (simp add: lookup_def)

text \<open>
  C5: a missing change-set file ends the process with status 1 and changes no file;
  malformed JSON is an uncaught \<open>JSONDecodeError\<close>; for a JSON object the loader returns
  the value under \<open>plans\<close>, or the empty list when the key is absent; and when the loader
  returns the empty list \<open>main\<close> reports it, changes no file and returns (status 0).
\<close>

theorem load_changes_contract:
  "load_changes Missing w = (Inl (SystemExit 1), say ErrNotFound w) \<and>
   fst (main rt Missing w) = Some (SystemExit 1) \<and>
   exit_status (fst (main rt Missing w)) = 1 \<and>
   files (snd (main rt Missing w)) = files w \<and>
   load_changes Malformed w = (Inl JSONDecodeError, w) \<and>
   main rt Malformed w = (Some JSONDecodeError, w) \<and>
   (lookup kvs ''plans'' = Some v \<longrightarrow> load_changes (Json (JObject kvs)) w = (Inr v, w)) \<and>
   (lookup kvs ''plans'' = None \<longrightarrow> load_changes (Json (JObject kvs)) w = (Inr (JArray []), w)) \<and>
   (fst (load_changes pf w) = Inr (JArray []) \<longrightarrow>
      main rt pf w = (None, say NoPlans w) \<and>
      exit_status (fst (main rt pf w)) = 0 \<and>
      files (snd (main rt pf w)) = files w \<and>
      out (snd (main rt pf w)) = out w @ [NoPlans])"
  by (auto simp: load_changes_def main_def exit_status_def say_def py_get_def
      split: plan_file.splits json.splits)

theorem load_changes_contract_witness:
  "exit_status (fst (main process_a Missing \<lparr>files = Map.empty, out = []\<rparr>)) = 1 \<and>
   load_changes (Json (JObject [(''plans'', JArray [JObject [(''name'', JString ''VIP'')]])]))
      \<lparr>files = Map.empty, out = []\<rparr>
     = (Inr (JArray [JObject [(''name'', JString ''VIP'')]]), \<lparr>files = Map.empty, out = []\<rparr>) \<and>
   load_changes (Json (JObject [(''tiers'', JArray [])])) \<lparr>files = Map.empty, out = []\<rparr>
     = (Inr (JArray []), \<lparr>files = Map.empty, out = []\<rparr>) \<and>
   main process_a (Json (JObject [(''tiers'', JArray [])])) \<lparr>files = Map.empty, out = []\<rparr>
     = (None, \<lparr>files = Map.empty, out = [NoPlans]\<rparr>)"
proof -
  let ?w = "\<lparr>files = Map.empty, out = []\<rparr>"
  have a: "lookup [(''plans'', JArray [JObject [(''name'', JString ''VIP'')]])] ''plans''
      = Some (JArray [JObject [(''name'', JString ''VIP'')]])"
    by (simp add: lookup_def)
  have b: "lookup [(''tiers'', JArray [])] ''plans'' = None" by (simp add: lookup_def)
  have c: "fst (load_changes (Json (JObject [(''tiers'', JArray [])])) ?w) = Inr (JArray [])"
    by (simp add: load_changes_def py_get_def lookup_def)
  from load_changes_contract [of ?w process_a "[(''plans'', JArray [JObject [(''name'', JString ''VIP'')]])]"
      "JArray [JObject [(''name'', JString ''VIP'')]]" Missing] a
    load_changes_contract [of ?w process_a "[(''tiers'', JArray [])]" JNull
      "Json (JObject [(''tiers'', JArray [])])"] b c
  show ?thesis by (simp add: say_def)
qed

text \<open>
  C10: when the top-level JSON value is not an object, \<open>data.get\<close> raises an
  \<open>AttributeError\<close> that nothing catches: the loader returns no list and the run aborts
  with nothing written.
\<close>

theorem non_object_top_level_raises:
  "\<not> is_object v \<Longrightarrow>
     load_changes (Json v) w = (Inl AttributeError, w) \<and>
     main rt (Json v) w = (Some AttributeError, w) \<and>
     exit_status (fst (main rt (Json v) w)) = 1"
  by (cases v) (simp_all add: load_changes_def main_def exit_status_def)

theorem non_object_top_level_raises_witness:
  "\<not> is_object (JArray [JObject [(''name'', JString ''VIP''), (''monthly'', JInt 15999)]]) \<and>
   main process_a (Json (JArray [JObject [(''name'', JString ''VIP''), (''monthly'', JInt 15999)]]))
     \<lparr>files = Map.empty, out = []\<rparr> = (Some AttributeError, \<lparr>files = Map.empty, out = []\<rparr>)"
  using non_object_top_level_raises
    [of "JArray [JObject [(''name'', JString ''VIP''), (''monthly'', JInt 15999)]]"
      "\<lparr>files = Map.empty, out = []\<rparr>" process_a]
  by simp

section \<open>A tree with children appended\<close>

lemma length_graft_list [simp]: "length (graft_list f i cs) = length cs"
  by (induction cs arbitrary: i) auto

lemma nth_graft_list:
  "j < length cs \<Longrightarrow> graft_list f i cs ! j = graft (\<lambda>q. f ((i + j) # q)) (cs ! j)"
proof (induction cs arbitrary: i j)
  case Nil
  then show ?case by simp
next
  case (Cons c cs)
  show ?case
  proof (cases j)
    case 0
    then show ?thesis by simp
  next
    case (Suc k)
    with Cons.prems have "k < length cs" by simp
    from Cons.IH [OF this, of "Suc i"] Suc show ?thesis by simp
  qed
qed

lemma graft_list_cong:
  "(\<And>j q. i \<le> j \<Longrightarrow> f (j # q) = g (j # q)) \<Longrightarrow> graft_list f i cs = graft_list g i cs"
proof (induction cs arbitrary: i)
  case Nil
  then show ?case by simp
next
  case (Cons c cs)
  have "(\<lambda>q. f (i # q)) = (\<lambda>q. g (i # q))" using Cons.prems by auto
  moreover have "graft_list f (Suc i) cs = graft_list g (Suc i) cs"
    by (rule Cons.IH) (simp add: Cons.prems)
  ultimately show ?case by simp
qed

lemma graft_empty: "graft (\<lambda>q. []) t = t" and graft_list_empty: "graft_list (\<lambda>q. []) i cs = cs"
  by (induction "\<lambda>q::path. []::node list" t and "\<lambda>q::path. []::node list" i cs rule: graft_graft_list.induct) auto

lemma is_tag_graft [simp]: "is_tag nm (graft f t) = is_tag nm t"
  by (cases t) auto

lemma has_attr_graft [simp]: "has_attr (graft f t) k = has_attr t k"
  by (cases t) auto

lemma subtree_graft:
  "subtree t q = Some x \<Longrightarrow> subtree (graft f t) q = Some (graft (\<lambda>q'. f (q @ q')) x)"
proof (induction q arbitrary: t f)
  case Nil
  then show ?case by simp
next
  case (Cons i q)
  then obtain n a cs where t: "t = Tag n a cs" by (cases t) auto
  with Cons.prems have i: "i < length cs" and s: "subtree (cs ! i) q = Some x"
    by (auto split: if_splits)
  have "subtree (graft f t) (i # q) = subtree (graft (\<lambda>q. f (i # q)) (cs ! i)) q"
    using i by (simp add: t nth_append nth_graft_list)
  also have "\<dots> = Some (graft (\<lambda>q'. f ((i # q) @ q')) x)"
    using Cons.IH [OF s, of "\<lambda>q. f (i # q)"] by simp
  finally show ?case .
qed

lemma append_at_graft:
  "tag_path t p \<Longrightarrow> append_at p x (graft f t) = graft (f(p := f p @ [x])) t"
proof (induction p arbitrary: t f)
  case Nil
  then obtain n a cs where t: "t = Tag n a cs" by (cases t) (auto simp: tag_path_def)
  have "graft_list (\<lambda>q. if q = [] then f [] @ [x] else f q) 0 cs = graft_list f 0 cs"
    by (rule graft_list_cong) simp
  then show ?case by (simp add: t fun_upd_def)
next
  case (Cons i p)
  then obtain n a cs where t: "t = Tag n a cs" by (cases t) (auto simp: tag_path_def)
  with Cons.prems have i: "i < length cs" and s: "tag_path (cs ! i) p"
    by (auto simp: tag_path_def split: if_splits)
  let ?g = "f(i # p := f (i # p) @ [x])"
  have IH: "append_at p x (graft (\<lambda>q. f (i # q)) (cs ! i)) = graft (\<lambda>q. ?g (i # q)) (cs ! i)"
    using Cons.IH [OF s, of "\<lambda>q. f (i # q)"] by (simp add: fun_upd_def)
  have "(graft_list f 0 cs)[i := append_at p x (graft_list f 0 cs ! i)] = graft_list ?g 0 cs"
  proof (rule nth_equalityI)
    show "length ((graft_list f 0 cs)[i := append_at p x (graft_list f 0 cs ! i)]) = length (graft_list ?g 0 cs)"
      by simp
  next
    fix j assume "j < length ((graft_list f 0 cs)[i := append_at p x (graft_list f 0 cs ! i)])"
    then have j: "j < length cs" by simp
    show "(graft_list f 0 cs)[i := append_at p x (graft_list f 0 cs ! i)] ! j = graft_list ?g 0 cs ! j"
    proof (cases "j = i")
      case True
      then show ?thesis using i IH by (simp add: nth_graft_list)
    next
      case False
      then have "(\<lambda>q. ?g (j # q)) = (\<lambda>q. f (j # q))" by auto
      then show ?thesis using False j i by (simp add: nth_graft_list)
    qed
  qed
  then show ?case using i by (simp add: t list_update_append nth_append fun_upd_def)
qed

subsection \<open>Searches see through appended nodes that hold no match\<close>

lemma find_none_iff:
  "(find_tag nm t = None) = (find_all nm t = [])"
  "(find_in nm i cs = None) = (find_all_in nm i cs = [])"
  by (induction nm t and nm i cs rule: find_tag_find_in.induct) (auto split: option.splits)

lemma find_in_append:
  "find_in nm i (xs @ ys) =
     (case find_in nm i xs of Some p \<Rightarrow> Some p | None \<Rightarrow> find_in nm (i + length xs) ys)"
  by (induction xs arbitrary: i) (auto split: option.splits)

lemma find_all_in_append:
  "find_all_in nm i (xs @ ys) = find_all_in nm i xs @ find_all_in nm (i + length xs) ys"
  by (induction xs arbitrary: i) auto

lemma find_all_in_no_tag:
  "(\<And>x. x \<in> set ys \<Longrightarrow> no_tag nm x) \<Longrightarrow> find_all_in nm k ys = []"
  by (induction ys arbitrary: k) (auto simp: no_tag_def)

lemma find_in_no_tag:
  "(\<And>x. x \<in> set ys \<Longrightarrow> no_tag nm x) \<Longrightarrow> find_in nm k ys = None"
  by (simp add: find_none_iff find_all_in_no_tag)

lemma find_all_graft:
  "(\<And>q x. x \<in> set (f q) \<Longrightarrow> no_tag nm x) \<Longrightarrow> find_all nm (graft f t) = find_all nm t"
  "(\<And>q x. x \<in> set (f q) \<Longrightarrow> no_tag nm x) \<Longrightarrow>
     find_all_in nm i (graft_list f i cs) = find_all_in nm i cs"
proof (induction f t and f i cs rule: graft_graft_list.induct)
  case (1 f s)
  then show ?case by simp
next
  case (2 f n a cs)
  have "find_all_in nm (0 + length (graft_list f 0 cs)) (f []) = []"
    by (rule find_all_in_no_tag) (rule "2.prems")
  then show ?case using "2.IH" "2.prems" by (simp add: find_all_in_append)
next
  case (3 f i)
  then show ?case by simp
next
  case (4 f i c cs)
  have a: "find_all nm (graft (\<lambda>q. f (i # q)) c) = find_all nm c"
    by (rule "4.IH") (rule "4.prems")
  have b: "find_all_in nm (Suc i) (graft_list f (Suc i) cs) = find_all_in nm (Suc i) cs"
    by (rule "4.IH") (rule "4.prems")
  show ?case by (simp add: a b)
qed

lemma find_tag_graft:
  "(\<And>q x. x \<in> set (f q) \<Longrightarrow> no_tag nm x) \<Longrightarrow> find_tag nm (graft f t) = find_tag nm t"
  "(\<And>q x. x \<in> set (f q) \<Longrightarrow> no_tag nm x) \<Longrightarrow>
     find_in nm i (graft_list f i cs) = find_in nm i cs"
proof (induction f t and f i cs rule: graft_graft_list.induct)
  case (1 f s)
  then show ?case by simp
next
  case (2 f n a cs)
  have "find_in nm (0 + length (graft_list f 0 cs)) (f []) = None"
    by (rule find_in_no_tag) (rule "2.prems")
  then show ?case using "2.IH" "2.prems" by (simp add: find_in_append split: option.splits)
next
  case (3 f i)
  then show ?case by simp
next
  case (4 f i c cs)
  have a: "find_tag nm (graft (\<lambda>q. f (i # q)) c) = find_tag nm c"
    by (rule "4.IH") (rule "4.prems")
  have b: "find_in nm (Suc i) (graft_list f (Suc i) cs) = find_in nm (Suc i) cs"
    by (rule "4.IH") (rule "4.prems")
  show ?case by (simp add: a b split: option.splits)
qed

lemma find_tag_path:
  "find_tag nm t = Some p \<Longrightarrow> \<exists>a cs. subtree t p = Some (Tag nm a cs)"
  "find_in nm i ds = Some p \<Longrightarrow>
     \<exists>j q a cs. p = (i + j) # q \<and> j < length ds \<and> subtree (ds ! j) q = Some (Tag nm a cs)"
proof (induction nm t and nm i ds arbitrary: p and p rule: find_tag_find_in.induct)
  case (1 nm s)
  then show ?case by simp
next
  case (2 nm n a cs)
  from "2.IH" [of p] "2.prems" show ?case by auto
next
  case (3 nm i)
  then show ?case by simp
next
  case (4 nm i c cs)
  show ?case
  proof (cases "is_tag nm c")
    case True
    then obtain a es where "c = Tag nm a es" by (cases c) auto
    with True "4.prems" show ?thesis by (intro exI [of _ 0]) auto
  next
    case False
    show ?thesis
    proof (cases "find_tag nm c")
      case None
      with False "4.prems" have "find_in nm (Suc i) cs = Some p" by simp
      from "4.IH"(2) [OF False None this] obtain j q a es where
        "p = (Suc i + j) # q" "j < length cs" "subtree (cs ! j) q = Some (Tag nm a es)" by blast
      then show ?thesis by (intro exI [of _ "Suc j"]) auto
    next
      case (Some q)
      with False "4.prems" have p: "p = i # q" by simp
      from "4.IH"(1) [OF False Some] obtain a es where "subtree c q = Some (Tag nm a es)" by blast
      with p show ?thesis by (intro exI [of _ 0]) auto
    qed
  qed
qed

lemma find_all_path:
  "p \<in> set (find_all nm t) \<Longrightarrow> \<exists>a cs. subtree t p = Some (Tag nm a cs)"
  "p \<in> set (find_all_in nm i ds) \<Longrightarrow>
     \<exists>j q a cs. p = (i + j) # q \<and> j < length ds \<and> subtree (ds ! j) q = Some (Tag nm a cs)"
proof (induction nm t and nm i ds arbitrary: p and p rule: find_all_find_all_in.induct)
  case (1 nm s)
  then show ?case by simp
next
  case (2 nm n a cs)
  from "2.IH" [of p] "2.prems" show ?case by auto
next
  case (3 nm i)
  then show ?case by simp
next
  case (4 nm i c cs)
  from "4.prems" consider
    (here) "is_tag nm c" "p = [i]"
    | (below) q where "q \<in> set (find_all nm c)" "p = i # q"
    | (later) "p \<in> set (find_all_in nm (Suc i) cs)"
    by (auto split: if_splits)
  then show ?case
  proof cases
    case here
    then obtain a es where "c = Tag nm a es" by (cases c) auto
    with here show ?thesis by (intro exI [of _ 0]) auto
  next
    case below
    from "4.IH"(1) [OF below(1)] obtain a es where "subtree c q = Some (Tag nm a es)" by blast
    with below show ?thesis by (intro exI [of _ 0]) auto
  next
    case later
    from "4.IH"(2) [OF later] obtain j q a es where
      "p = (Suc i + j) # q" "j < length cs" "subtree (cs ! j) q = Some (Tag nm a es)" by blast
    then show ?thesis by (intro exI [of _ "Suc j"]) auto
  qed
qed

lemma pre_ord_append:
  "pre_ord (xs @ ys) = (pre_ord xs \<and> pre_ord ys \<and> (\<forall>x\<in>set xs. \<forall>y\<in>set ys. \<not> prefix y x))"
  by (induction xs) auto

lemma pre_ord_map_Cons: "pre_ord (map ((#) i) xs) = pre_ord xs"
  by (induction xs) auto

lemma pre_ord_map_append: "pre_ord (map ((@) p) xs) = pre_ord xs"
  by (induction xs) auto

lemma find_all_nonempty: "p \<in> set (find_all nm t) \<Longrightarrow> p \<noteq> []"
  by (cases t) (auto dest: find_all_path(2))

lemma pre_ord_find_all:
  "pre_ord (find_all nm t)"
  "pre_ord (find_all_in nm i ds)"
proof (induction nm t and nm i ds rule: find_all_find_all_in.induct)
  case (4 nm i c cs)
  have later: "\<And>y. y \<in> set (find_all_in nm (Suc i) cs) \<Longrightarrow> \<exists>j q. y = (Suc i + j) # q"
    by (blast dest: find_all_path(2))
  have below: "\<And>q. q \<in> set (find_all nm c) \<Longrightarrow> q \<noteq> []"
    by (rule find_all_nonempty)
  have a: "pre_ord (map ((#) i) (find_all nm c) @ find_all_in nm (Suc i) cs)"
    using "4.IH" later by (fastforce simp: pre_ord_append pre_ord_map_Cons)
  show ?case
  proof (cases "is_tag nm c")
    case True
    have "\<forall>y\<in>set (map ((#) i) (find_all nm c) @ find_all_in nm (Suc i) cs). \<not> prefix y [i]"
      using later below by fastforce
    with a True show ?thesis by simp
  next
    case False
    with a show ?thesis by simp
  qed
qed simp_all

subsection \<open>The loop over the body rows\<close>

text \<open>
  The loop decides each cell on the document as it is when the row is reached. A row is
  reached before its descendants and nothing appended so far holds a \<open>td\<close> inside the
  row, so the decision is the one the unpatched row gives.
\<close>

lemma first_td_colspan_graft:
  assumes "\<And>q x. x \<in> set (g q) \<Longrightarrow> no_tag ''td'' x"
  shows "first_td_colspan (graft g tr) = first_td_colspan tr"
proof -
  have f: "find_tag ''td'' (graft g tr) = find_tag ''td'' tr"
    by (rule find_tag_graft) (rule assms)
  show ?thesis
  proof (cases "find_tag ''td'' tr")
    case None
    with f show ?thesis by (simp add: first_td_colspan_def)
  next
    case (Some p)
    then obtain a cs where s: "subtree tr p = Some (Tag ''td'' a cs)"
      by (blast dest: find_tag_path(1))
    from subtree_graft [OF s, of g] s f Some show ?thesis
      by (simp add: first_td_colspan_def)
  qed
qed

lemma fold_append_row_cell:
  assumes "pre_ord rs"
    and "\<And>r. r \<in> set rs \<Longrightarrow> tag_path d r"
    and "\<And>r q x. r \<in> set rs \<Longrightarrow> prefix r q \<Longrightarrow> x \<in> set (f q) \<Longrightarrow> no_tag ''td'' x"
  shows "fold append_row_cell rs (graft f d) = graft (\<lambda>q. f q @ row_cells d rs q) d"
  using assms
proof (induction rs arbitrary: f)
  case Nil
  then show ?case by (simp add: row_cells_def)
next
  case (Cons r rs)
  from Cons.prems(2) [of r] obtain n a cs where tr: "subtree d r = Some (Tag n a cs)"
    by (auto simp: tag_path_def split: option.splits node.splits)
  let ?tr = "Tag n a cs"
  let ?g = "\<lambda>q'. f (r @ q')"
  have clean: "\<And>q x. x \<in> set (?g q) \<Longrightarrow> no_tag ''td'' x"
    using Cons.prems(3) [of r] by (meson list.set_intros(1) prefixI)
  have cur: "subtree (graft f d) r = Some (graft ?g ?tr)"
    by (rule subtree_graft [OF tr])
  have cell: "body_cell (graft ?g ?tr) = body_cell ?tr"
    using first_td_colspan_graft [of ?g ?tr] clean by (simp add: body_cell_def)
  let ?f' = "f(r := f r @ [body_cell ?tr])"
  have step: "append_row_cell r (graft f d) = graft ?f' d"
    using cur cell append_at_graft [OF Cons.prems(2) [of r], of "body_cell ?tr" f]
    by (simp add: append_row_cell_def)
  have notin: "r \<notin> set rs" using Cons.prems(1) by auto
  have "fold append_row_cell rs (graft ?f' d) = graft (\<lambda>q. ?f' q @ row_cells d rs q) d"
  proof (rule Cons.IH)
    show "pre_ord rs" using Cons.prems(1) by simp
  next
    fix r' assume "r' \<in> set rs"
    then show "tag_path d r'" using Cons.prems(2) by simp
  next
    fix r' q x assume a: "r' \<in> set rs" "prefix r' q" "x \<in> set (?f' q)"
    show "no_tag ''td'' x"
    proof (cases "q = r")
      case True
      with a Cons.prems(1) show ?thesis by auto
    next
      case False
      with a Cons.prems(3) [of r' q x] show ?thesis by simp
    qed
  qed
  moreover have "(\<lambda>q. ?f' q @ row_cells d rs q) = (\<lambda>q. f q @ row_cells d (r # rs) q)"
    using notin tr by (auto simp: row_cells_def fun_eq_iff)
  ultimately show ?case using step by simp
qed

subsection \<open>One call of the patcher\<close>

lemma subtree_append:
  "subtree t (p @ q) = (case subtree t p of None \<Rightarrow> None | Some x \<Rightarrow> subtree x q)"
proof (induction p arbitrary: t)
  case Nil
  then show ?case by simp
next
  case (Cons i p)
  then show ?case by (cases t) auto
qed

lemma tag_path_graft: "tag_path d q \<Longrightarrow> tag_path (graft f d) q"
proof -
  assume "tag_path d q"
  then obtain n a cs where s: "subtree d q = Some (Tag n a cs)"
    by (auto simp: tag_path_def split: option.splits node.splits)
  from subtree_graft [OF s, of f] show ?thesis by (simp add: tag_path_def)
qed

lemma kids_at_graft:
  assumes "tag_path d q"
  shows "kids_at (graft f d) q = graft_list (\<lambda>q'. f (q @ q')) 0 (kids_at d q) @ f q"
proof -
  from assms obtain n a cs where s: "subtree d q = Some (Tag n a cs)"
    by (auto simp: tag_path_def split: option.splits node.splits)
  from subtree_graft [OF s, of f] s show ?thesis by (simp add: kids_at_def)
qed

lemma filter_is_cell_graft_list:
  "length (filter is_cell (graft_list g i cs)) = length (filter is_cell cs)"
  by (induction cs arbitrary: i) (auto simp: is_cell_def)

lemma cell_count_graft:
  "tag_path d q \<Longrightarrow> cell_count (graft f d) q = cell_count d q + length (filter is_cell (f q))"
  by (simp add: cell_count_def kids_at_graft filter_is_cell_graft_list)

lemma new_kids_graft: "tag_path d q \<Longrightarrow> new_kids d (graft f d) q = f q"
  by (simp add: new_kids_def kids_at_graft)

lemma length_kids_at_graft:
  "tag_path d q \<Longrightarrow> length (kids_at (graft f d) q) = length (kids_at d q) + length (f q)"
  by (simp add: kids_at_graft)

lemma head_row_graft:
  assumes "\<And>q x. x \<in> set (f q) \<Longrightarrow> no_tag ''thead'' x"
    and "\<And>q x. x \<in> set (f q) \<Longrightarrow> no_tag ''tr'' x"
  shows "head_row (graft f d) = head_row d"
proof (cases "find_tag ''thead'' d")
  case None
  then show ?thesis using find_tag_graft(1) [of f "''thead''" d] assms(1)
    by (simp add: head_row_def)
next
  case (Some p1)
  then obtain a cs where s: "subtree d p1 = Some (Tag ''thead'' a cs)"
    by (blast dest: find_tag_path(1))
  have "find_tag ''tr'' (graft (\<lambda>q'. f (p1 @ q')) (Tag ''thead'' a cs)) = find_tag ''tr'' (Tag ''thead'' a cs)"
    by (rule find_tag_graft(1)) (rule assms(2))
  then show ?thesis
    using find_tag_graft(1) [of f "''thead''" d] assms(1) Some s subtree_graft [OF s, of f]
    by (simp add: head_row_def)
qed

lemma body_rows_graft:
  assumes "\<And>q x. x \<in> set (f q) \<Longrightarrow> no_tag ''tbody'' x"
    and "\<And>q x. x \<in> set (f q) \<Longrightarrow> no_tag ''tr'' x"
  shows "body_rows (graft f d) = body_rows d"
proof (cases "find_tag ''tbody'' d")
  case None
  then show ?thesis using find_tag_graft(1) [of f "''tbody''" d] assms(1)
    by (simp add: body_rows_def)
next
  case (Some pb)
  then obtain a cs where s: "subtree d pb = Some (Tag ''tbody'' a cs)"
    by (blast dest: find_tag_path(1))
  have "find_all ''tr'' (graft (\<lambda>q'. f (pb @ q')) (Tag ''tbody'' a cs)) = find_all ''tr'' (Tag ''tbody'' a cs)"
    by (rule find_all_graft(1)) (rule assms(2))
  then show ?thesis
    using find_tag_graft(1) [of f "''tbody''" d] assms(1) Some s subtree_graft [OF s, of f]
    by (simp add: body_rows_def)
qed

lemma head_row_tag_path: "head_row d = Some ph \<Longrightarrow> tag_path d ph"
  by (auto simp: head_row_def tag_path_def subtree_append split: option.splits
      dest!: find_tag_path(1))

lemma body_rows_tag_path:
  assumes "r \<in> set (body_rows d)"
  shows "tag_path d r"
proof -
  from assms obtain pb where f: "find_tag ''tbody'' d = Some pb"
    by (cases "find_tag ''tbody'' d") (auto simp: body_rows_def)
  with assms obtain tb where pb: "subtree d pb = Some tb"
    by (cases "subtree d pb") (auto simp: body_rows_def)
  with assms f obtain q where q: "q \<in> set (find_all ''tr'' tb)" and r: "r = pb @ q"
    by (auto simp: body_rows_def)
  from find_all_path(1) [OF q] obtain a cs where "subtree tb q = Some (Tag ''tr'' a cs)" by blast
  with pb r show ?thesis by (simp add: tag_path_def subtree_append)
qed

lemma pre_ord_body_rows: "pre_ord (body_rows d)"
  by (simp add: body_rows_def pre_ord_map_append pre_ord_find_all split: option.splits)

lemma no_tag_header_th:
  "no_tag ''thead'' (header_th rt s m)" "no_tag ''tr'' (header_th rt s m)"
  "no_tag ''tbody'' (header_th rt s m)" "no_tag ''td'' (header_th rt s m)"
  by (simp_all add: no_tag_def header_th_def)

lemma no_tag_body_cell:
  "no_tag ''thead'' (body_cell tr)" "no_tag ''tr'' (body_cell tr)"
  "no_tag ''tbody'' (body_cell tr)"
  by (simp_all add: no_tag_def body_cell_def filler_td_def placeholder_td_def)

lemma append_plan_graft:
  assumes "head_row d = Some ph"
  shows "append_plan rt (JString s) m d =
    Inr (Written (patched_doc (header_th rt s m) d) (find_tag ''tbody'' d \<noteq> None))"
proof -
  let ?th = "header_th rt s m"
  from assms obtain p1 thd p2 where
    p1: "find_tag ''thead'' d = Some p1" and thd: "subtree d p1 = Some thd"
    and p2: "find_tag ''tr'' thd = Some p2" and ph: "ph = p1 @ p2"
    by (auto simp: head_row_def split: option.splits)
  let ?f0 = "(\<lambda>q. []) (ph := [?th])"
  have c_tr: "\<And>q x. x \<in> set (?f0 q) \<Longrightarrow> no_tag ''tr'' x"
    and c_tbody: "\<And>q x. x \<in> set (?f0 q) \<Longrightarrow> no_tag ''tbody'' x"
    and c_td: "\<And>q x. x \<in> set (?f0 q) \<Longrightarrow> no_tag ''td'' x"
    by (auto simp: no_tag_header_th split: if_splits)
  have soup1: "append_at ph ?th d = graft ?f0 d"
    using append_at_graft [OF head_row_tag_path [OF assms], of ?th "\<lambda>q. []"]
    by (simp add: graft_empty)
  have tb: "find_tag ''tbody'' (graft ?f0 d) = find_tag ''tbody'' d"
    by (rule find_tag_graft(1)) (rule c_tbody)
  have rows: "body_rows (graft ?f0 d) = body_rows d"
    by (rule body_rows_graft) (erule c_tbody, erule c_tr)
  have loop: "fold append_row_cell (body_rows d) (graft ?f0 d) =
      graft (\<lambda>q. ?f0 q @ row_cells d (body_rows d) q) d"
  proof (rule fold_append_row_cell)
    show "pre_ord (body_rows d)" by (rule pre_ord_body_rows)
  next
    fix r assume "r \<in> set (body_rows d)"
    then show "tag_path d r" by (rule body_rows_tag_path)
  next
    fix r q x assume "x \<in> set (?f0 q)"
    then show "no_tag ''td'' x" by (rule c_td)
  qed
  have eq: "(\<lambda>q. ?f0 q @ row_cells d (body_rows d) q) = added_cells ?th d"
    using assms by (auto simp: added_cells_def fun_eq_iff)
  show ?thesis
  proof (cases "find_tag ''tbody'' d")
    case None
    then have "body_rows d = []" by (simp add: body_rows_def)
    then have "?f0 = added_cells ?th d"
      using assms by (auto simp: added_cells_def row_cells_def fun_eq_iff)
    with None tb soup1 p1 thd p2 ph show ?thesis
      by (simp add: append_plan_def make_header_th_def patched_doc_def)
  next
    case (Some pb)
    with tb soup1 p1 thd p2 ph rows loop eq show ?thesis
      by (simp add: append_plan_def make_header_th_def patched_doc_def)
  qed
qed

lemma doc_after_patched:
  "head_row d = Some ph \<Longrightarrow> doc_after rt (JString s) m d = patched_doc (header_th rt s m) d"
  by (simp add: doc_after_def append_plan_graft)

lemma row_cells_cases:
  assumes "x \<in> set (row_cells d rs q)"
  shows "\<exists>tr. x = body_cell tr"
proof (cases "subtree d q")
  case None
  with assms show ?thesis by (cases "q \<in> set rs") (simp_all add: row_cells_def)
next
  case (Some tr)
  with assms have "x = body_cell tr" by (cases "q \<in> set rs") (simp_all add: row_cells_def)
  then show ?thesis ..
qed

lemma added_cells_cases:
  assumes "x \<in> set (added_cells th d q)"
  shows "x = th \<or> (\<exists>tr. x = body_cell tr)"
proof (cases "x \<in> set (row_cells d (body_rows d) q)")
  case True
  then show ?thesis by (simp add: row_cells_cases)
next
  case False
  with assms show ?thesis by (cases "head_row d = Some q") (simp_all add: added_cells_def)
qed

lemma no_tag_added_cells:
  assumes "x \<in> set (added_cells (header_th rt s m) d q)"
  shows "no_tag ''thead'' x" and "no_tag ''tr'' x" and "no_tag ''tbody'' x"
  using added_cells_cases [OF assms] no_tag_header_th [of rt s m] no_tag_body_cell
  by blast+

lemma head_row_patched: "head_row (patched_doc (header_th rt s m) d) = head_row d"
  unfolding patched_doc_def
  by (rule head_row_graft) (erule no_tag_added_cells(1), erule no_tag_added_cells(2))

lemma body_rows_patched: "body_rows (patched_doc (header_th rt s m) d) = body_rows d"
  unfolding patched_doc_def
  by (rule body_rows_graft) (erule no_tag_added_cells(3), erule no_tag_added_cells(2))

lemma find_all_tr_patched:
  "find_all ''tr'' (patched_doc (header_th rt s m) d) = find_all ''tr'' d"
  unfolding patched_doc_def
  by (rule find_all_graft(1)) (erule no_tag_added_cells(2))


lemma is_cell_header_th [simp]: "is_cell (header_th rt s m)"
  by (simp add: is_cell_def header_th_def)

lemma is_cell_body_cell [simp]: "is_cell (body_cell tr)"
  by (simp add: is_cell_def body_cell_def filler_td_def placeholder_td_def)

lemma added_cells_row:
  assumes "r \<in> set (body_rows d)" and "subtree d r = Some tr"
  shows "added_cells th d r = (if head_row d = Some r then [th] else []) @ [body_cell tr]"
  using assms by (simp add: added_cells_def row_cells_def)

lemma added_cells_head:
  assumes "head_row d = Some ph" and "ph \<notin> set (body_rows d)"
  shows "added_cells th d ph = [th]"
  using assms by (simp add: added_cells_def row_cells_def)

lemma added_cells_other:
  assumes "head_row d \<noteq> Some q" and "q \<notin> set (body_rows d)"
  shows "added_cells th d q = []"
  using assms by (simp add: added_cells_def row_cells_def)

lemma count_added_cells:
  "length (filter is_cell (added_cells (header_th rt s m) d q)) =
     (if head_row d = Some q then 1 else 0) + (if q \<in> set (body_rows d) then 1 else 0)"
proof (cases "q \<in> set (body_rows d)")
  case True
  then obtain tr where "subtree d q = Some tr"
    using body_rows_tag_path [OF True] by (auto simp: tag_path_def split: option.splits)
  with True show ?thesis by (simp add: added_cells_row)
next
  case False
  then show ?thesis by (simp add: added_cells_def row_cells_def)
qed

lemma cell_count_patched:
  "tag_path d q \<Longrightarrow>
     cell_count (patched_doc (header_th rt s m) d) q =
       cell_count d q + (if head_row d = Some q then 1 else 0)
         + (if q \<in> set (body_rows d) then 1 else 0)"
  by (simp add: patched_doc_def cell_count_graft count_added_cells)

lemma new_kids_patched:
  "tag_path d q \<Longrightarrow> new_kids d (patched_doc th d) q = added_cells th d q"
  by (simp add: patched_doc_def new_kids_graft)

lemma length_kids_patched:
  "tag_path d q \<Longrightarrow>
     length (kids_at (patched_doc th d) q) = length (kids_at d q) + length (added_cells th d q)"
  by (simp add: patched_doc_def length_kids_at_graft)

lemma new_kids_body_row:
  assumes "head_row d = Some ph" and "r \<in> set (body_rows d)" and "subtree d r = Some tr"
  shows "new_kids d (doc_after rt (JString s) m d) r =
    (if r = ph then [header_th rt s m] else []) @ [body_cell tr]"
proof -
  have "added_cells (header_th rt s m) d r =
      (if r = ph then [header_th rt s m] else []) @ [body_cell tr]"
    using added_cells_row [OF assms(2,3)] assms(1) by auto
  then show ?thesis
    using body_rows_tag_path [OF assms(2)] assms(1)
    by (simp add: doc_after_patched new_kids_patched)
qed

lemma append_plan_doc_after:
  "head_row d = Some ph \<Longrightarrow>
     append_plan rt (JString s) m d =
       Inr (Written (doc_after rt (JString s) m d) (find_tag ''tbody'' d \<noteq> None))"
  by (simp add: doc_after_patched append_plan_graft)

lemma head_row_doc_after:
  "head_row d = Some ph \<Longrightarrow> head_row (doc_after rt (JString s) m d) = Some ph"
  by (simp add: doc_after_patched head_row_patched)

lemma body_rows_doc_after:
  "head_row d = Some ph \<Longrightarrow> body_rows (doc_after rt (JString s) m d) = body_rows d"
  by (simp add: doc_after_patched body_rows_patched)

lemma find_all_tr_doc_after:
  "head_row d = Some ph \<Longrightarrow> find_all ''tr'' (doc_after rt (JString s) m d) = find_all ''tr'' d"
  by (simp add: doc_after_patched find_all_tr_patched)


lemma cell_count_doc_after:
  "head_row d = Some ph \<Longrightarrow> tag_path d q \<Longrightarrow>
     cell_count (doc_after rt (JString s) m d) q =
       cell_count d q + (if q = ph then 1 else 0) + (if q \<in> set (body_rows d) then 1 else 0)"
  by (auto simp: doc_after_patched cell_count_patched)

lemma tag_path_doc_after:
  "head_row d = Some ph \<Longrightarrow> tag_path d q \<Longrightarrow> tag_path (doc_after rt (JString s) m d) q"
  by (simp add: doc_after_patched patched_doc_def tag_path_graft)

lemma find_all_tag_path: "r \<in> set (find_all nm d) \<Longrightarrow> tag_path d r"
  by (auto simp: tag_path_def dest!: find_all_path(1))

lemma last_kids_doc_after:
  assumes "head_row d = Some ph" and "r \<in> set (body_rows d)" and "subtree d r = Some tr"
  shows "last (kids_at (doc_after rt (JString s) m d) r) = body_cell tr"
proof -
  have tp: "tag_path d r" by (rule body_rows_tag_path [OF assms(2)])
  have "kids_at (doc_after rt (JString s) m d) r =
      graft_list (\<lambda>q'. added_cells (header_th rt s m) d (r @ q')) 0 (kids_at d r)
        @ (if head_row d = Some r then [header_th rt s m] else []) @ [body_cell tr]"
    using kids_at_graft [OF tp] added_cells_row [OF assms(2,3)] assms(1)
    by (simp add: doc_after_patched patched_doc_def)
  then show ?thesis by simp
qed

lemma length_kids_doc_after:
  assumes "head_row d = Some ph" and "tag_path d q"
  shows "length (kids_at (doc_after rt (JString s) m d) q) =
    length (kids_at d q) + length (added_cells (header_th rt s m) d q)"
  using assms by (simp add: doc_after_patched length_kids_patched)



subsection \<open>The calls of one run\<close>

lemma doc_after_no_head:
  assumes "head_row d = None"
  shows "(append_plan rt name m d = Inr NoThead \<or> append_plan rt name m d = Inr NoHeaderRow) \<and>
    doc_after rt name m d = d"
proof (cases "find_tag ''thead'' d")
  case None
  then show ?thesis by (simp add: append_plan_def doc_after_def)
next
  case (Some p1)
  show ?thesis
  proof (cases "subtree d p1")
    case None
    with Some show ?thesis by (simp add: append_plan_def doc_after_def)
  next
    case (Some thd)
    with \<open>find_tag ''thead'' d = Some p1\<close> assms have "find_tag ''tr'' thd = None"
      by (simp add: head_row_def)
    with Some \<open>find_tag ''thead'' d = Some p1\<close> show ?thesis
      by (simp add: append_plan_def doc_after_def)
  qed
qed

lemma append_plan_to_file_string:
  assumes "files w t = Some d"
  shows "fst (append_plan_to_file rt t (JString s) m w) = None \<and>
    files (snd (append_plan_to_file rt t (JString s) m w)) =
      (files w)(t \<mapsto> doc_after rt (JString s) m d)"
proof (cases "head_row d")
  case None
  have same: "(files w)(t \<mapsto> d) = files w" using assms by auto
  from doc_after_no_head [OF None, of rt "JString s" m] assms same show ?thesis
    by (auto simp: append_plan_to_file_def say_def)
next
  case (Some ph)
  from append_plan_doc_after [OF Some, of rt s m] assms show ?thesis
    by (auto simp: append_plan_to_file_def say_def write_text_def Let_def)
qed

lemma apply_to_targets_string:
  assumes "distinct ts"
  shows "fst (apply_to_targets rt (JString s) m ts w) = None \<and>
    (\<forall>t. files (snd (apply_to_targets rt (JString s) m ts w)) t =
      (if t \<in> set ts then map_option (doc_after rt (JString s) m) (files w t) else files w t))"
  using assms
proof (induction ts arbitrary: w)
  case Nil
  then show ?case by simp
next
  case (Cons t ts)
  from Cons.prems have d: "distinct ts" and nt: "t \<notin> set ts" by simp_all
  show ?case
  proof (cases "files w t")
    case None
    let ?w1 = "say (TargetMissing t) w"
    have f: "files ?w1 = files w" by (simp add: say_def)
    from Cons.IH [OF d, of ?w1] None f nt show ?thesis by auto
  next
    case (Some d0)
    obtain r w1 where step: "append_plan_to_file rt t (JString s) m w = (r, w1)"
      by (cases "append_plan_to_file rt t (JString s) m w")
    with append_plan_to_file_string [OF Some, of rt s m] have r: "r = None"
      and f: "files w1 = (files w)(t \<mapsto> doc_after rt (JString s) m d0)" by simp_all
    from Cons.IH [OF d, of w1] Some step r f nt show ?thesis by auto
  qed
qed

lemma distinct_TARGETS: "distinct TARGETS" and set_TARGETS: "t \<in> set TARGETS"
  by (simp add: TARGETS_def, cases t) (simp_all add: TARGETS_def)

lemma plan_okD:
  assumes "plan_ok rt p"
  obtains s m where "plan_name p = Inr (JString s)" and "plan_monthly rt p = Inr m"
  using assms by (auto simp: plan_ok_def split: sum.splits json.splits)

lemma apply_plans_counts:
  assumes "\<forall>p\<in>set ps. plan_ok rt p" and "files w t = Some d" and "head_row d = Some ph"
    and "ph \<notin> set (body_rows d)"
  shows "fst (apply_plans rt ps w) = None \<and>
    (\<exists>d'. files (snd (apply_plans rt ps w)) t = Some d' \<and>
       head_row d' = Some ph \<and> body_rows d' = body_rows d \<and>
       cell_count d' ph = cell_count d ph + length ps \<and>
       (\<forall>r\<in>set (body_rows d). cell_count d' r = cell_count d r + length ps))"
  using assms
proof (induction ps arbitrary: w d)
  case Nil
  then show ?case by simp
next
  case (Cons p ps)
  from Cons.prems(1) have "plan_ok rt p" by simp
  then obtain s m where nm: "plan_name p = Inr (JString s)" and mo: "plan_monthly rt p = Inr m"
    by (rule plan_okD)
  let ?d1 = "doc_after rt (JString s) m d"
  obtain r w1 where step: "apply_to_targets rt (JString s) m TARGETS w = (r, w1)"
    by (cases "apply_to_targets rt (JString s) m TARGETS w")
  with apply_to_targets_string [OF distinct_TARGETS, of rt s m w] set_TARGETS [of t] Cons.prems(2)
  have r: "r = None" and f: "files w1 t = Some ?d1" by auto
  have h1: "head_row ?d1 = Some ph" by (rule head_row_doc_after [OF Cons.prems(3)])
  have b1: "body_rows ?d1 = body_rows d" by (rule body_rows_doc_after [OF Cons.prems(3)])
  have c_head: "cell_count ?d1 ph = cell_count d ph + 1"
    using cell_count_doc_after [OF Cons.prems(3) head_row_tag_path [OF Cons.prems(3)], of rt s m]
      Cons.prems(4) by simp
  have c_row: "cell_count ?d1 q = cell_count d q + 1" if "q \<in> set (body_rows d)" for q
    using cell_count_doc_after [OF Cons.prems(3) body_rows_tag_path [OF that], of rt s m]
      that Cons.prems(4) by auto
  have "\<forall>p\<in>set ps. plan_ok rt p" using Cons.prems(1) by simp
  from Cons.IH [OF this f h1] b1 Cons.prems(4)
  obtain d' where res: "fst (apply_plans rt ps w1) = None"
    "files (snd (apply_plans rt ps w1)) t = Some d'" "head_row d' = Some ph"
    "body_rows d' = body_rows d" "cell_count d' ph = cell_count ?d1 ph + length ps"
    "\<forall>q\<in>set (body_rows d). cell_count d' q = cell_count ?d1 q + length ps"
    by auto
  have run: "apply_plans rt (p # ps) w = apply_plans rt ps w1"
    using nm mo step r by simp
  show ?case
    unfolding run using res c_head c_row by auto
qed

lemma append_plan_to_file_no_tbody:
  assumes "head_row d = Some ph" and "find_tag ''tbody'' d = None" and "files w t = Some d"
  shows "append_plan_to_file rt t (JString s) m w =
    (None, w\<lparr>files := (files w)(t \<mapsto> doc_after rt (JString s) m d),
              out := out w @ [Applying t (JString s) m, WarnNoTbody t, Updated t]\<rparr>)"
  using append_plan_doc_after [OF assms(1), of rt s m] assms(2,3)
  by (simp add: append_plan_to_file_def say_def write_text_def Let_def)

subsection \<open>Rows that start with a \<open>td\<close>\<close>

lemma leading_td_find:
  assumes "leading_td cs = Some c"
  shows "\<exists>i. i < length cs \<and> cs ! i = c \<and> find_in ''td'' k cs = Some [k + i] \<and>
    List.find is_cell cs = Some c"
  using assms
proof (induction cs arbitrary: k rule: leading_td.induct)
  case 1
  then show ?case by simp
next
  case (2 s cs)
  from "2.prems" have "leading_td cs = Some c" by simp
  from "2.IH" [OF this, of "Suc k"] obtain i where
    "i < length cs" "cs ! i = c" "find_in ''td'' (Suc k) cs = Some [Suc k + i]"
    "List.find is_cell cs = Some c" by blast
  moreover have "\<not> is_cell (Text s)" by (simp add: is_cell_def)
  ultimately show ?case by (intro exI [of _ "Suc i"]) simp
next
  case (3 n a ks cs)
  then show ?case by (intro exI [of _ 0]) (auto simp: is_cell_def split: if_splits)
qed

lemma starts_with_td_first:
  assumes "starts_with_td tr = Some c"
  shows "first_cell tr = Some c \<and> first_td_colspan tr = has_attr c ''colspan''"
proof -
  from assms obtain n a cs where tr: "tr = Tag n a cs" and l: "leading_td cs = Some c"
    by (cases tr) auto
  from leading_td_find [OF l, of 0] obtain i where
    "i < length cs" "cs ! i = c" "find_in ''td'' 0 cs = Some [i]" "List.find is_cell cs = Some c"
    by auto
  then show ?thesis by (simp add: tr first_td_colspan_def)
qed

section \<open>Properties of the document patcher\<close>

text \<open>
  C4, as stated, fails, both ways: a body row whose first cell is a \<open>th\<close> that carries
  \<open>colspan\<close> receives the placeholder, and a body row whose first cell carries no \<open>colspan\<close>
  but whose first \<open>td\<close> does receives the filler cell.
\<close>

theorem th_separator_gets_placeholder:
  "first_cell_colspan th_separator_row \<and>
   subtree th_separator_doc [0, 1, 0] = Some th_separator_row \<and>
   [0, 1, 0] \<in> set (body_rows th_separator_doc) \<and>
   new_kids th_separator_doc
     (doc_after process_a (JString ''VIP'') 15999 th_separator_doc) [0, 1, 0] = [placeholder_td] \<and>
   get_text placeholder_td = ''-'' \<and>
   \<not> first_cell_colspan th_first_row \<and>
   subtree th_first_doc [0, 1, 0] = Some th_first_row \<and>
   [0, 1, 0] \<in> set (body_rows th_first_doc) \<and>
   new_kids th_first_doc
     (doc_after process_a (JString ''VIP'') 15999 th_first_doc) [0, 1, 0] = [filler_td] \<and>
   get_text filler_td = ''''"
proof -
  have a: "head_row th_separator_doc = Some [0, 0, 0]" by code_simp
  have b: "[0, 1, 0] \<in> set (body_rows th_separator_doc)" by code_simp
  have c: "subtree th_separator_doc [0, 1, 0] = Some th_separator_row" by code_simp
  have d: "body_cell th_separator_row = placeholder_td" by code_simp
  have e: "first_cell_colspan th_separator_row" by code_simp
  have a': "head_row th_first_doc = Some [0, 0, 0]" by code_simp
  have b': "[0, 1, 0] \<in> set (body_rows th_first_doc)" by code_simp
  have c': "subtree th_first_doc [0, 1, 0] = Some th_first_row" by code_simp
  have d': "body_cell th_first_row = filler_td" by code_simp
  have e': "\<not> first_cell_colspan th_first_row" by code_simp
  have t: "get_text placeholder_td = ''-''" "get_text filler_td = ''''" by code_simp+
  from new_kids_body_row [OF a b c, of process_a "''VIP''" 15999]
    new_kids_body_row [OF a' b' c', of process_a "''VIP''" 15999] b c d e b' c' d' e' t
  show ?thesis by simp
qed

text \<open>
  C4, amended: when the patcher finds the head row, it appends to every row of the body
  exactly one cell (after the header cell, should the row be the head row itself). The
  cell is decided by the first \<open>td\<close> inside the row, in document order: the filler cell,
  whose text is empty, when there is such a \<open>td\<close> and it carries \<open>colspan\<close>; the placeholder,
  whose text is \<open>-\<close>, when it carries none or the row holds no \<open>td\<close>. For a row that
  starts with a \<open>td\<close>, that \<open>td\<close> is the first cell of the row.
\<close>

theorem body_row_cell:
  assumes "head_row d = Some ph" and "r \<in> set (body_rows d)" and "subtree d r = Some tr"
  shows "append_plan rt (JString s) m d = Inr (Written (doc_after rt (JString s) m d) True) \<and>
    (find_tag ''td'' tr = None \<longrightarrow>
       new_kids d (doc_after rt (JString s) m d) r =
         (if r = ph then [header_th rt s m] else []) @ [placeholder_td]) \<and>
    (\<forall>p td. find_tag ''td'' tr = Some p \<and> subtree tr p = Some td \<longrightarrow>
       new_kids d (doc_after rt (JString s) m d) r =
         (if r = ph then [header_th rt s m] else [])
           @ [if has_attr td ''colspan'' then filler_td else placeholder_td]) \<and>
    (\<forall>c. starts_with_td tr = Some c \<longrightarrow>
       first_cell tr = Some c \<and>
       new_kids d (doc_after rt (JString s) m d) r =
         (if r = ph then [header_th rt s m] else [])
           @ [if has_attr c ''colspan'' then filler_td else placeholder_td]) \<and>
    length (kids_at (doc_after rt (JString s) m d) r) =
      length (kids_at d r) + (if r = ph then 2 else 1) \<and>
    get_text filler_td = '''' \<and> get_text placeholder_td = ''-''"
proof -
  let ?d' = "doc_after rt (JString s) m d"
  let ?hdr = "if r = ph then [header_th rt s m] else []"
  have tb: "find_tag ''tbody'' d \<noteq> None"
    using assms(2) by (cases "find_tag ''tbody'' d") (simp_all add: body_rows_def)
  have run: "append_plan rt (JString s) m d = Inr (Written ?d' True)"
    using append_plan_doc_after [OF assms(1), of rt s m] tb by simp
  have nk: "new_kids d ?d' r = ?hdr @ [body_cell tr]"
    by (rule new_kids_body_row [OF assms])
  have none: "new_kids d ?d' r = ?hdr @ [placeholder_td]" if "find_tag ''td'' tr = None"
    using nk that by (simp add: body_cell_def first_td_colspan_def)
  have some: "new_kids d ?d' r = ?hdr @ [if has_attr td ''colspan'' then filler_td else placeholder_td]"
    if "find_tag ''td'' tr = Some p" and "subtree tr p = Some td" for p td
    using nk that by (simp add: body_cell_def first_td_colspan_def)
  have lead: "first_cell tr = Some c \<and>
      new_kids d ?d' r = ?hdr @ [if has_attr c ''colspan'' then filler_td else placeholder_td]"
    if "starts_with_td tr = Some c" for c
    using nk starts_with_td_first [OF that] by (simp add: body_cell_def)
  have len: "length (kids_at ?d' r) = length (kids_at d r) + (if r = ph then 2 else 1)"
    using length_kids_doc_after [OF assms(1) body_rows_tag_path [OF assms(2)], of rt s m]
      added_cells_row [OF assms(2,3)] assms(1)
    by auto
  have texts: "get_text filler_td = ''''" "get_text placeholder_td = ''-''"
    by (simp_all add: filler_td_def placeholder_td_def)
  show ?thesis using run none some lead len texts by blast
qed

theorem body_row_cell_witness:
  "new_kids sample_doc (doc_after process_a (JString ''VIP'') 15999 sample_doc) [0, 1, 0]
     = [filler_td] \<and>
   new_kids sample_doc (doc_after process_a (JString ''VIP'') 15999 sample_doc) [0, 1, 1]
     = [placeholder_td] \<and>
   new_kids th_separator_doc (doc_after process_a (JString ''VIP'') 15999 th_separator_doc)
     [0, 1, 0] = [placeholder_td] \<and>
   length (kids_at (doc_after process_a (JString ''VIP'') 15999 sample_doc) [0, 1, 0]) = 2 \<and>
   length (kids_at (doc_after process_a (JString ''VIP'') 15999 sample_doc) [0, 1, 1]) = 4"
proof -
  let ?sep = "Tag ''tr'' [] [Tag ''td'' [(''colspan'', ''3'')] [Text ''Support'']]"
  let ?row = "Tag ''tr'' []
        [Tag ''td'' [] [Text ''Chat''], Tag ''td'' [] [Text ''yes''], Tag ''td'' [] [Text ''yes'']]"
  have a: "head_row sample_doc = Some [0, 0, 0]" by code_simp
  have b: "[0, 1, 0] \<in> set (body_rows sample_doc)" by code_simp
  have b': "[0, 1, 1] \<in> set (body_rows sample_doc)" by code_simp
  have c: "subtree sample_doc [0, 1, 0] = Some ?sep" by code_simp
  have c': "subtree sample_doc [0, 1, 1] = Some ?row" by code_simp
  have l: "starts_with_td ?sep = Some (Tag ''td'' [(''colspan'', ''3'')] [Text ''Support''])"
    by code_simp
  have f: "find_tag ''td'' ?row = Some [0]" by code_simp
  have g: "subtree ?row [0] = Some (Tag ''td'' [] [Text ''Chat''])" by code_simp
  have n: "length (kids_at sample_doc [0, 1, 0]) = 1" "length (kids_at sample_doc [0, 1, 1]) = 3"
    by code_simp+
  have a2: "head_row th_separator_doc = Some [0, 0, 0]" by code_simp
  have b2: "[0, 1, 0] \<in> set (body_rows th_separator_doc)" by code_simp
  have c2: "subtree th_separator_doc [0, 1, 0] = Some th_separator_row" by code_simp
  have f2: "find_tag ''td'' th_separator_row = None" by code_simp
  from body_row_cell [OF a b c, of process_a "''VIP''" 15999]
    body_row_cell [OF a b' c', of process_a "''VIP''" 15999]
    body_row_cell [OF a2 b2 c2, of process_a "''VIP''" 15999] l f g n f2
  show ?thesis by simp
qed

text \<open>
  C9, as stated, fails: a row whose first cell is a \<open>th\<close> and whose first \<open>td\<close> carries
  \<open>colspan\<close> is taken for a separator and receives the filler cell, not the placeholder.
\<close>

theorem th_first_row_gets_filler:
  "first_cell_is_th th_first_row \<and>
   subtree th_first_doc [0, 1, 0] = Some th_first_row \<and>
   [0, 1, 0] \<in> set (body_rows th_first_doc) \<and>
   new_kids th_first_doc (doc_after process_a (JString ''VIP'') 15999 th_first_doc) [0, 1, 0]
     = [filler_td] \<and>
   filler_td \<noteq> placeholder_td"
proof -
  have a: "head_row th_first_doc = Some [0, 0, 0]" by code_simp
  have b: "[0, 1, 0] \<in> set (body_rows th_first_doc)" by code_simp
  have c: "subtree th_first_doc [0, 1, 0] = Some th_first_row" by code_simp
  have d: "body_cell th_first_row = filler_td" by code_simp
  have e: "first_cell_is_th th_first_row" by code_simp
  have f: "filler_td \<noteq> placeholder_td" by code_simp
  from new_kids_body_row [OF a b c, of process_a "''VIP''" 15999] b c d e f
  show ?thesis by simp
qed

text \<open>
  C9, amended: the cell a body row receives depends on the first \<open>td\<close> below the row
  only. A row with no \<open>td\<close> at all receives the placeholder, whatever its \<open>th\<close> cells carry;
  a row with a \<open>td\<close>, also one whose first cell is a \<open>th\<close>, receives the filler cell when
  that first \<open>td\<close> carries \<open>colspan\<close> and the placeholder otherwise.
\<close>

theorem separator_detection:
  assumes "head_row d = Some ph" and "r \<in> set (body_rows d)" and "subtree d r = Some tr"
  shows "(find_tag ''td'' tr = None \<longrightarrow>
            last (kids_at (doc_after rt (JString s) m d) r) = placeholder_td) \<and>
         (\<forall>p td. find_tag ''td'' tr = Some p \<and> subtree tr p = Some td \<longrightarrow>
            last (kids_at (doc_after rt (JString s) m d) r) =
              (if has_attr td ''colspan'' then filler_td else placeholder_td))"
  using last_kids_doc_after [OF assms, of rt s m]
  by (auto simp: body_cell_def first_td_colspan_def)

theorem separator_detection_witness:
  "last (kids_at (doc_after process_a (JString ''VIP'') 15999 th_first_doc) [0, 1, 0]) = filler_td \<and>
   last (kids_at (doc_after process_a (JString ''VIP'') 15999 sample_doc) [0, 1, 1]) = placeholder_td"
proof -
  have a: "head_row th_first_doc = Some [0, 0, 0]" by code_simp
  have b: "[0, 1, 0] \<in> set (body_rows th_first_doc)" by code_simp
  have c: "subtree th_first_doc [0, 1, 0] = Some th_first_row" by code_simp
  have d: "find_tag ''td'' th_first_row = Some [1]" by code_simp
  have e: "subtree th_first_row [1] = Some (Tag ''td'' [(''colspan'', ''2'')] [Text ''Included in every plan''])"
    by code_simp
  have a': "head_row sample_doc = Some [0, 0, 0]" by code_simp
  have b': "[0, 1, 1] \<in> set (body_rows sample_doc)" by code_simp
  have c': "subtree sample_doc [0, 1, 1] = Some (Tag ''tr'' []
                [Tag ''td'' [] [Text ''Chat''], Tag ''td'' [] [Text ''yes''],
                 Tag ''td'' [] [Text ''yes'']])" by code_simp
  have d': "find_tag ''td'' (Tag ''tr'' []
                [Tag ''td'' [] [Text ''Chat''], Tag ''td'' [] [Text ''yes''],
                 Tag ''td'' [] [Text ''yes'']]) = Some [0]" by code_simp
  from separator_detection [OF a b c, of process_a "''VIP''" 15999] d e
    separator_detection [OF a' b' c', of process_a "''VIP''" 15999] d'
  show ?thesis by simp
qed

text \<open>
  C2, as stated, fails: in a document with a table head and no \<open>tbody\<close> element, whose
  rows have as many cells as the head row, the patcher appends the header cell and leaves
  the other rows as they are.
\<close>

theorem no_tbody_breaks_columns:
  "head_row doc_without_tbody = Some [0, 0, 0] \<and>
   find_tag ''tbody'' doc_without_tbody = None \<and>
   columns_agree doc_without_tbody [0, 0, 0] \<and>
   append_plan process_a (JString ''VIP'') 15999 doc_without_tbody =
     Inr (Written (doc_after process_a (JString ''VIP'') 15999 doc_without_tbody) False) \<and>
   \<not> columns_agree (doc_after process_a (JString ''VIP'') 15999 doc_without_tbody) [0, 0, 0]"
proof -
  let ?d' = "doc_after process_a (JString ''VIP'') 15999 doc_without_tbody"
  have a: "head_row doc_without_tbody = Some [0, 0, 0]" by code_simp
  have b: "find_tag ''tbody'' doc_without_tbody = None" by code_simp
  have c: "columns_agree doc_without_tbody [0, 0, 0]" by code_simp
  have rows: "find_all ''tr'' doc_without_tbody = [[0, 0, 0], [0, 1]]" by code_simp
  have br: "body_rows doc_without_tbody = []" by code_simp
  have n1: "cell_count doc_without_tbody [0, 0, 0] = 2" by code_simp
  have n2: "cell_count doc_without_tbody [0, 1] = 2" by code_simp
  have t1: "tag_path doc_without_tbody [0, 0, 0]" by code_simp
  have t2: "tag_path doc_without_tbody [0, 1]" by code_simp
  have "cell_count ?d' [0, 0, 0] = 3"
    using cell_count_doc_after [OF a t1, of process_a "''VIP''" 15999] n1 br by simp
  moreover have "cell_count ?d' [0, 1] = 2"
    using cell_count_doc_after [OF a t2, of process_a "''VIP''" 15999] n2 br by simp
  moreover have "find_all ''tr'' ?d' = [[0, 0, 0], [0, 1]]"
    using find_all_tr_doc_after [OF a, of process_a "''VIP''" 15999] rows by simp
  ultimately have "\<not> columns_agree ?d' [0, 0, 0]"
    by (simp add: columns_agree_def)
  with a b c append_plan_doc_after [OF a, of process_a "''VIP''" 15999] show ?thesis by simp
qed

text \<open>
  C2, amended: when the patcher finds the head row, it appends one header cell to the
  head row and one cell to every row of the first \<open>tbody\<close>, and to no other row; a head
  row that is itself a row of the first \<open>tbody\<close> so gains two cells. Hence the head row
  and the other rows keep equal cell counts when the head row is not a row of the first
  \<open>tbody\<close> and all the other rows are. With no \<open>tbody\<close> the patcher prints its warning
  and writes the document all the same: the head row gains one cell, no other row changes.
\<close>

theorem columns_agree_kept:
  assumes "head_row d = Some ph"
  shows "append_plan rt (JString s) m d =
      Inr (Written (doc_after rt (JString s) m d) (find_tag ''tbody'' d \<noteq> None)) \<and>
    head_row (doc_after rt (JString s) m d) = Some ph \<and>
    cell_count (doc_after rt (JString s) m d) ph =
      cell_count d ph + (if ph \<in> set (body_rows d) then 2 else 1) \<and>
    (\<forall>r\<in>set (find_all ''tr'' d). r \<noteq> ph \<longrightarrow>
       cell_count (doc_after rt (JString s) m d) r =
         cell_count d r + (if r \<in> set (body_rows d) then 1 else 0)) \<and>
    (ph \<notin> set (body_rows d) \<and> columns_agree d ph \<and>
       (\<forall>r\<in>set (find_all ''tr'' d). r \<noteq> ph \<longrightarrow> r \<in> set (body_rows d))
       \<longrightarrow> columns_agree (doc_after rt (JString s) m d) ph) \<and>
    (find_tag ''tbody'' d = None \<longrightarrow>
       cell_count (doc_after rt (JString s) m d) ph = cell_count d ph + 1 \<and>
       (\<forall>r\<in>set (find_all ''tr'' d). r \<noteq> ph \<longrightarrow>
          cell_count (doc_after rt (JString s) m d) r = cell_count d r) \<and>
       (files w t = Some d \<longrightarrow>
          append_plan_to_file rt t (JString s) m w =
            (None, w\<lparr>files := (files w)(t \<mapsto> doc_after rt (JString s) m d),
                      out := out w @ [Applying t (JString s) m, WarnNoTbody t, Updated t]\<rparr>)))"
proof -
  let ?d' = "doc_after rt (JString s) m d"
  have hd: "cell_count ?d' ph = cell_count d ph + (if ph \<in> set (body_rows d) then 2 else 1)"
    using cell_count_doc_after [OF assms head_row_tag_path [OF assms], of rt s m] by simp
  have row: "cell_count ?d' r = cell_count d r + (if r \<in> set (body_rows d) then 1 else 0)"
    if "r \<in> set (find_all ''tr'' d)" and "r \<noteq> ph" for r
    using cell_count_doc_after [OF assms find_all_tag_path [OF that(1)], of rt s m] that(2)
    by simp
  have keep: "columns_agree ?d' ph"
    if "ph \<notin> set (body_rows d)" and "columns_agree d ph"
      and "\<forall>r\<in>set (find_all ''tr'' d). r \<noteq> ph \<longrightarrow> r \<in> set (body_rows d)"
    unfolding columns_agree_def
  proof (intro ballI impI)
    fix r assume r: "r \<in> set (find_all ''tr'' ?d')" and ne: "r \<noteq> ph"
    from r have r': "r \<in> set (find_all ''tr'' d)"
      by (simp add: find_all_tr_doc_after [OF assms])
    with that ne have "cell_count d r = cell_count d ph" and "r \<in> set (body_rows d)"
      by (auto simp: columns_agree_def)
    with row [OF r' ne] hd that(1) show "cell_count ?d' r = cell_count ?d' ph" by simp
  qed
  have nobody: "cell_count ?d' ph = cell_count d ph + 1 \<and>
       (\<forall>r\<in>set (find_all ''tr'' d). r \<noteq> ph \<longrightarrow> cell_count ?d' r = cell_count d r) \<and>
       (files w t = Some d \<longrightarrow>
          append_plan_to_file rt t (JString s) m w =
            (None, w\<lparr>files := (files w)(t \<mapsto> ?d'),
                      out := out w @ [Applying t (JString s) m, WarnNoTbody t, Updated t]\<rparr>))"
    if nb: "find_tag ''tbody'' d = None"
  proof -
    from nb have br: "body_rows d = []" by (simp add: body_rows_def)
    show ?thesis
      using hd row br append_plan_to_file_no_tbody [OF assms nb, of w t rt s m] by simp
  qed
  show ?thesis
    using append_plan_doc_after [OF assms, of rt s m] head_row_doc_after [OF assms, of rt s m]
      hd row keep nobody
    by blast
qed

theorem columns_agree_kept_witness:
  "columns_agree uniform_doc [0, 0, 0] \<and>
   cell_count (doc_after process_a (JString ''VIP'') 15999 uniform_doc) [0, 0, 0] = 3 \<and>
   cell_count (doc_after process_a (JString ''VIP'') 15999 uniform_doc) [0, 1, 0] = 3 \<and>
   cell_count (doc_after process_a (JString ''VIP'') 15999 uniform_doc) [0, 1, 1] = 3 \<and>
   columns_agree (doc_after process_a (JString ''VIP'') 15999 uniform_doc) [0, 0, 0] \<and>
   cell_count nested_head_doc [0, 0, 0, 0, 0, 0, 0] = 1 \<and>
   cell_count (doc_after process_a (JString ''VIP'') 15999 nested_head_doc)
     [0, 0, 0, 0, 0, 0, 0] = 3 \<and>
   cell_count (doc_after process_a (JString ''VIP'') 15999 nested_head_doc) [0, 0, 0] = 2 \<and>
   cell_count (doc_after process_a (JString ''VIP'') 15999 doc_without_tbody) [0, 0, 0] = 3 \<and>
   cell_count (doc_after process_a (JString ''VIP'') 15999 doc_without_tbody) [0, 1] = 2 \<and>
   out (snd (append_plan_to_file process_a Pricingai (JString ''VIP'') 15999 world_without_tbody))
     = [Applying Pricingai (JString ''VIP'') 15999, WarnNoTbody Pricingai, Updated Pricingai]"
proof -
  have a: "head_row uniform_doc = Some [0, 0, 0]" by code_simp
  have b: "[0, 0, 0] \<notin> set (body_rows uniform_doc)" by code_simp
  have c: "columns_agree uniform_doc [0, 0, 0]" by code_simp
  have rows: "find_all ''tr'' uniform_doc = [[0, 0, 0], [0, 1, 0], [0, 1, 1]]" by code_simp
  have br: "body_rows uniform_doc = [[0, 1, 0], [0, 1, 1]]" by code_simp
  have n: "cell_count uniform_doc [0, 0, 0] = 2" "cell_count uniform_doc [0, 1, 0] = 2"
    "cell_count uniform_doc [0, 1, 1] = 2" by code_simp+
  have a2: "head_row nested_head_doc = Some [0, 0, 0, 0, 0, 0, 0]" by code_simp
  have rows2: "find_all ''tr'' nested_head_doc = [[0, 0, 0], [0, 0, 0, 0, 0, 0, 0]]" by code_simp
  have br2: "body_rows nested_head_doc = [[0, 0, 0], [0, 0, 0, 0, 0, 0, 0]]" by code_simp
  have n2: "cell_count nested_head_doc [0, 0, 0, 0, 0, 0, 0] = 1"
    "cell_count nested_head_doc [0, 0, 0] = 1" by code_simp+
  have a3: "head_row doc_without_tbody = Some [0, 0, 0]" by code_simp
  have nb3: "find_tag ''tbody'' doc_without_tbody = None" by code_simp
  have rows3: "find_all ''tr'' doc_without_tbody = [[0, 0, 0], [0, 1]]" by code_simp
  have n3: "cell_count doc_without_tbody [0, 0, 0] = 2" "cell_count doc_without_tbody [0, 1] = 2"
    by code_simp+
  have f3: "files world_without_tbody Pricingai = Some doc_without_tbody"
    by (simp add: world_without_tbody_def)
  have one: "cell_count (doc_after process_a (JString ''VIP'') 15999 uniform_doc) [0, 0, 0] = 3 \<and>
    cell_count (doc_after process_a (JString ''VIP'') 15999 uniform_doc) [0, 1, 0] = 3 \<and>
    cell_count (doc_after process_a (JString ''VIP'') 15999 uniform_doc) [0, 1, 1] = 3 \<and>
    columns_agree (doc_after process_a (JString ''VIP'') 15999 uniform_doc) [0, 0, 0]"
    using columns_agree_kept [OF a, of process_a "''VIP''" 15999] b c rows br n by simp
  have two: "cell_count (doc_after process_a (JString ''VIP'') 15999 nested_head_doc)
      [0, 0, 0, 0, 0, 0, 0] = 3 \<and>
    cell_count (doc_after process_a (JString ''VIP'') 15999 nested_head_doc) [0, 0, 0] = 2"
    using columns_agree_kept [OF a2, of process_a "''VIP''" 15999] rows2 br2 n2 by simp
  have three: "cell_count (doc_after process_a (JString ''VIP'') 15999 doc_without_tbody) [0, 0, 0] = 3 \<and>
    cell_count (doc_after process_a (JString ''VIP'') 15999 doc_without_tbody) [0, 1] = 2 \<and>
    out (snd (append_plan_to_file process_a Pricingai (JString ''VIP'') 15999 world_without_tbody))
      = [Applying Pricingai (JString ''VIP'') 15999, WarnNoTbody Pricingai, Updated Pricingai]"
    using columns_agree_kept [OF a3, of process_a "''VIP''" 15999 world_without_tbody Pricingai]
      nb3 rows3 n3 f3
    by (simp add: world_without_tbody_def)
  from one two three c n2(1) show ?thesis by simp
qed



section \<open>Properties of the orchestrator\<close>

text \<open>
  C1: for a change-set of \<open>N\<close> well-formed plans and a target document in which the
  patcher finds the head row (which is not itself a row of the first \<open>tbody\<close>), \<open>main\<close>
  returns, and afterwards the head row has \<open>N\<close> more cells and every row of the body has
  \<open>N\<close> more cells: \<open>H + N\<close> and \<open>C + N\<close>.
\<close>

theorem main_adds_one_column_per_plan:
  assumes "lookup kvs ''plans'' = Some (JArray ps)" and "\<forall>p\<in>set ps. plan_ok rt p"
    and "files w t = Some d" and "head_row d = Some ph" and "ph \<notin> set (body_rows d)"
  shows "fst (main rt (Json (JObject kvs)) w) = None \<and>
    (\<exists>d'. files (snd (main rt (Json (JObject kvs)) w)) t = Some d' \<and>
       head_row d' = Some ph \<and> body_rows d' = body_rows d \<and>
       cell_count d' ph = cell_count d ph + length ps \<and>
       (\<forall>r\<in>set (body_rows d). cell_count d' r = cell_count d r + length ps))"
proof (cases ps)
  case Nil
  with assms show ?thesis
    by (simp add: main_def load_changes_def py_get_def say_def)
next
  case (Cons p ps')
  obtain r w1 where run: "apply_plans rt ps w = (r, w1)" by (cases "apply_plans rt ps w")
  with apply_plans_counts [OF assms(2-5)] have r: "r = None" by simp
  have "main rt (Json (JObject kvs)) w = (None, say Done w1)"
    using assms(1) Cons run r by (simp add: main_def load_changes_def py_get_def)
  moreover have "files (say Done w1) = files (snd (apply_plans rt ps w))"
    using run by (simp add: say_def)
  ultimately show ?thesis using apply_plans_counts [OF assms(2-5)] by simp
qed

theorem main_adds_one_column_per_plan_witness:
  "head_row sample_doc = Some [0, 0, 0] \<and>
   body_rows sample_doc = [[0, 1, 0], [0, 1, 1]] \<and>
   cell_count sample_doc [0, 0, 0] = 3 \<and>
   cell_count sample_doc [0, 1, 0] = 1 \<and>
   cell_count sample_doc [0, 1, 1] = 3 \<and>
   fst (main process_a sample_changes sample_world) = None \<and>
   (\<exists>d'. files (snd (main process_a sample_changes sample_world)) Pricingai = Some d' \<and>
      cell_count d' [0, 0, 0] = 5 \<and> cell_count d' [0, 1, 0] = 3 \<and> cell_count d' [0, 1, 1] = 5)"
proof -
  let ?ps = "[JObject [(''name'', JString ''New Plan''), (''monthly'', JInt 1999)],
              JObject [(''name'', JString ''VIP''), (''monthly'', JInt 15999)]]"
  have a: "lookup [(''plans'', JArray ?ps)] ''plans'' = Some (JArray ?ps)"
    by (simp add: lookup_def)
  have b: "\<forall>p\<in>set ?ps. plan_ok process_a p"
    by (simp add: plan_ok_def plan_name_def plan_monthly_def py_get_def py_or_def lookup_def)
  have c: "files sample_world Pricingai = Some sample_doc" by (simp add: sample_world_def)
  have d: "head_row sample_doc = Some [0, 0, 0]" by code_simp
  have e: "body_rows sample_doc = [[0, 1, 0], [0, 1, 1]]" by code_simp
  have e': "[0, 0, 0] \<notin> set (body_rows sample_doc)" by (simp add: e)
  have n: "cell_count sample_doc [0, 0, 0] = 3" "cell_count sample_doc [0, 1, 0] = 1"
    "cell_count sample_doc [0, 1, 1] = 3" by code_simp+
  from main_adds_one_column_per_plan [OF a b c d e']
  obtain d' where r: "fst (main process_a sample_changes sample_world) = None"
    "files (snd (main process_a sample_changes sample_world)) Pricingai = Some d'"
    "cell_count d' [0, 0, 0] = cell_count sample_doc [0, 0, 0] + 2"
    "\<forall>r\<in>set (body_rows sample_doc). cell_count d' r = cell_count sample_doc r + 2"
    by (auto simp: sample_changes_def)
  from r(4) have "cell_count d' [0, 1, 0] = cell_count sample_doc [0, 1, 0] + 2"
    and "cell_count d' [0, 1, 1] = cell_count sample_doc [0, 1, 1] + 2"
    by (simp_all add: e)
  with r(1-3) d e n show ?thesis by simp
qed

end
